theory Spec2Isabelle
  imports Main "HOL-Library.Sublist"
begin

section \<open>Positions, ranges and content changes\<close>

text \<open>
  A position is a pair of numbers, with the comparisons of the repository's own
  lightweight implementation of the editor types (\<^verbatim>\<open>tests/mocks/vscode.ts\<close>), which
  are those of the editor. JavaScript numbers that hold line and column counts are
  modelled as \<^typ>\<open>int\<close>. A JavaScript string is a \<^typ>\<open>string\<close>, one \<^typ>\<open>char\<close> for
  each UTF-16 code unit (code units below 256 only).
\<close>

record Position =
  line :: int
  character :: int

text \<open>
  \<^verbatim>\<open>translate\<close> (the editor's returns the position itself when both deltas are 0, which
  is the same value).
\<close>

definition translate :: "Position \<Rightarrow> int \<Rightarrow> int \<Rightarrow> Position" where
  "translate p lineDelta characterDelta =
     \<lparr>line = line p + lineDelta, character = character p + characterDelta\<rparr>"

definition isEqual :: "Position \<Rightarrow> Position \<Rightarrow> bool" where
  "isEqual p other \<longleftrightarrow> line p = line other \<and> character p = character other"

definition isBefore :: "Position \<Rightarrow> Position \<Rightarrow> bool" where
  "isBefore p other \<longleftrightarrow>
     line p < line other \<or> (line p = line other \<and> character p < character other)"

definition isAfter :: "Position \<Rightarrow> Position \<Rightarrow> bool" where
  "isAfter p other \<longleftrightarrow>
     line p > line other \<or> (line p = line other \<and> character p > character other)"

record Range =
  range_start :: Position
  range_end :: Position

definition isEmpty :: "Range \<Rightarrow> bool" where
  "isEmpty r \<longleftrightarrow> isEqual (range_start r) (range_end r)"

text \<open>
  \<^verbatim>\<open>new vscode.Range(start, end)\<close>. The editor's constructor puts the two positions in
  order (\<^verbatim>\<open>vscode.d.ts\<close>: ``If \<^verbatim>\<open>start\<close> is not before or equal to \<^verbatim>\<open>end\<close>, the values
  will be swapped''; its code keeps the arguments when \<^verbatim>\<open>start.isBefore(end)\<close> and
  exchanges them otherwise). The constructor of \<^verbatim>\<open>tests/mocks/vscode.ts\<close> keeps the
  arguments as they are given; the two agree whenever the start is not after the end.
\<close>

definition newRange :: "Position \<Rightarrow> Position \<Rightarrow> Range" where
  "newRange start fin =
     (if isBefore start fin then \<lparr>range_start = start, range_end = fin\<rparr>
      else \<lparr>range_start = fin, range_end = start\<rparr>)"

text \<open>The range with the given start and end coordinates, written as a literal.\<close>

definition mkRange :: "int \<Rightarrow> int \<Rightarrow> int \<Rightarrow> int \<Rightarrow> Range" where
  "mkRange startLine startCharacter endLine endCharacter =
     \<lparr>range_start = \<lparr>line = startLine, character = startCharacter\<rparr>,
      range_end = \<lparr>line = endLine, character = endCharacter\<rparr>\<rparr>"

text \<open>
  \<^verbatim>\<open>TextDocumentContentChangeEvent\<close>: the replaced range and the text put in its place
  (\<^verbatim>\<open>rangeOffset\<close> and \<^verbatim>\<open>rangeLength\<close> are never read by the tracker).
\<close>

record ContentChange =
  change_range :: Range
  change_text :: string

text \<open>
  The data-model invariants of positions and ranges, used as hypotheses only. The
  editor's \<^verbatim>\<open>Position\<close> constructor throws on a negative line or character
  (\<^verbatim>\<open>line must be non-negative\<close>, \<^verbatim>\<open>character must be non-negative\<close>), so every position
  it hands out is \<open>nonNegative\<close>, and \<open>nonNegative\<close> is what a position built by the
  tracker has to be for the constructor to return; the constructor of
  \<^verbatim>\<open>tests/mocks/vscode.ts\<close> accepts any two numbers.
\<close>

definition nonNegative :: "Position \<Rightarrow> bool" where
  "nonNegative p \<longleftrightarrow> 0 \<le> line p \<and> 0 \<le> character p"

definition wellFormed :: "Range \<Rightarrow> bool" where
  "wellFormed r \<longleftrightarrow>
     nonNegative (range_start r) \<and> nonNegative (range_end r) \<and>
     \<not> isAfter (range_start r) (range_end r)"

section \<open>Splitting text at newlines\<close>

abbreviation newline :: char where
  "newline \<equiv> CHR 0x0A"

text \<open>
  \<^verbatim>\<open>s.split("\n")\<close>: the segments between newlines; the empty string gives one empty
  segment, so the result is never the empty list (and the last case below never arises).
\<close>

fun split_newline :: "string \<Rightarrow> string list" where
  "split_newline [] = [[]]"
| "split_newline (c # cs) =
     (if c = newline then [] # split_newline cs
      else (case split_newline cs of
              l # ls \<Rightarrow> (c # l) # ls
            | [] \<Rightarrow> [[c]]))"

section \<open>The insertion tracker\<close>

record PendingInsertion =
  entry_id :: string
  entry_uri :: string
  entry_range :: Range

text \<open>
  The tracker's state is its \<^verbatim>\<open>pending\<close> map. The change listener registered by the
  constructor is the function \<open>adjustForChanges\<close> below, applied to each event.
\<close>

record InsertionTracker =
  pending :: "string \<rightharpoonup> PendingInsertion"

definition newTracker :: InsertionTracker where
  "newTracker = \<lparr>pending = Map.empty\<rparr>"

text \<open>
  A method either returns or throws: \<open>Inr\<close> carries the state after a normal return,
  \<open>Inl\<close> the message of a thrown \<^verbatim>\<open>Error\<close>. The body of \<^verbatim>\<open>track\<close> is the single
  statement \<^verbatim>\<open>this.pending.set(id, { id, uri, range })\<close>.
\<close>

definition track :: "string \<Rightarrow> string \<Rightarrow> Range \<Rightarrow> InsertionTracker \<Rightarrow> string + InsertionTracker" where
  "track ident uri rng t =
     Inr (t\<lparr>pending := (pending t)(ident \<mapsto> \<lparr>entry_id = ident, entry_uri = uri, entry_range = rng\<rparr>)\<rparr>)"

definition remove :: "string \<Rightarrow> InsertionTracker \<Rightarrow> InsertionTracker" where
  "remove ident t = t\<lparr>pending := (pending t)(ident := None)\<rparr>"

definition activeCount :: "InsertionTracker \<Rightarrow> nat" where
  "activeCount t = card (dom (pending t))"

definition dispose :: "InsertionTracker \<Rightarrow> InsertionTracker" where
  "dispose t = t\<lparr>pending := Map.empty\<rparr>"

subsection \<open>Shifting one range through one change\<close>

definition addedLineCount :: "ContentChange \<Rightarrow> int" where
  "addedLineCount change = int (length (split_newline (change_text change))) - 1"

definition removedLineCount :: "ContentChange \<Rightarrow> int" where
  "removedLineCount change =
     line (range_end (change_range change)) - line (range_start (change_range change))"

definition lineDelta :: "ContentChange \<Rightarrow> int" where
  "lineDelta change = addedLineCount change - removedLineCount change"

definition lastNewLineLength :: "ContentChange \<Rightarrow> int" where
  "lastNewLineLength change = int (length (last (split_newline (change_text change))))"

text \<open>The three tests of \<^verbatim>\<open>shiftRange\<close>, in the order the source makes them.\<close>

definition changeAfter :: "Range \<Rightarrow> ContentChange \<Rightarrow> bool" where
  "changeAfter rng change \<longleftrightarrow>
     (let changeStart = range_start (change_range change) in
      line changeStart > line (range_end rng) \<or>
      (line changeStart = line (range_end rng) \<and>
       character changeStart \<ge> character (range_end rng)))"

definition changeBeforeLine :: "Range \<Rightarrow> ContentChange \<Rightarrow> bool" where
  "changeBeforeLine rng change \<longleftrightarrow>
     line (range_end (change_range change)) < line (range_start rng)"

definition changeEndsOnStartLine :: "Range \<Rightarrow> ContentChange \<Rightarrow> bool" where
  "changeEndsOnStartLine rng change \<longleftrightarrow>
     (let changeEnd = range_end (change_range change) in
      line changeEnd = line (range_start rng) \<and>
      character changeEnd \<le> character (range_start rng))"

definition shiftRange :: "Range \<Rightarrow> ContentChange \<Rightarrow> Range" where
  "shiftRange rng change =
     (let changeStart = range_start (change_range change);
          changeEnd = range_end (change_range change)
      in
      if changeAfter rng change then rng
      else if changeBeforeLine rng change then
        newRange (translate (range_start rng) (lineDelta change) 0)
          (translate (range_end rng) (lineDelta change) 0)
      else if changeEndsOnStartLine rng change then
        (let newStartChar =
               (if addedLineCount change = 0
                then character (range_start rng) +
                     (lastNewLineLength change - (character changeEnd - character changeStart))
                else character (range_start rng) - character changeEnd + lastNewLineLength change);
             newEndChar =
               (if addedLineCount change = 0
                then (if line (range_start rng) = line (range_end rng)
                      then character (range_end rng) +
                           (lastNewLineLength change - (character changeEnd - character changeStart))
                      else character (range_end rng))
                else (if line (range_start rng) = line (range_end rng)
                      then character (range_end rng) - character changeEnd + lastNewLineLength change
                      else character (range_end rng)))
         in newRange \<lparr>line = line (range_start rng) + lineDelta change, character = newStartChar\<rparr>
              \<lparr>line = line (range_end rng) + lineDelta change, character = newEndChar\<rparr>)
      else
        newRange
          \<lparr>line = max 0 (line (range_start rng) + lineDelta change),
           character = character (range_start rng)\<rparr>
          \<lparr>line = max 0 (line (range_end rng) + lineDelta change),
           character = character (range_end rng)\<rparr>)"

subsection \<open>Document change events\<close>

record TextDocumentChangeEvent =
  document_uri :: string
  contentChanges :: "ContentChange list"

text \<open>
  Every entry of the changed document is shifted through the event's changes in order,
  each change applied to the result of the previous one; entries of other documents and
  the set of tracked ids are left alone.
\<close>

definition adjustForChanges :: "TextDocumentChangeEvent \<Rightarrow> InsertionTracker \<Rightarrow> InsertionTracker" where
  "adjustForChanges e t =
     t\<lparr>pending := (\<lambda>k. case pending t k of
                          None \<Rightarrow> None
                        | Some entry \<Rightarrow>
                            if entry_uri entry \<noteq> document_uri e then Some entry
                            else Some (entry\<lparr>entry_range :=
                                         foldl shiftRange (entry_range entry) (contentChanges e)\<rparr>))\<rparr>"

subsection \<open>Applying a result\<close>

text \<open>
  What \<^verbatim>\<open>applyResult\<close> reads from the editor host: the URIs of the open documents,
  the visible editors (the URI of each one's document, and what its \<^verbatim>\<open>edit\<close> does with
  a given replacement), and \<^verbatim>\<open>Uri.parse(s).toString()\<close> for a URI string. Each of the
  two calls can fail: \<^verbatim>\<open>Uri.parse\<close> throws on a string it cannot read, and the promise
  of \<^verbatim>\<open>edit\<close> is fulfilled with \<^verbatim>\<open>true\<close> or \<^verbatim>\<open>false\<close> or is rejected (the editor
  rejects it with \<^verbatim>\<open>TextEditor#edit not possible on closed editors\<close> for an editor that was
  disposed, and with an \<^verbatim>\<open>illegalArgument\<close> error when the window no longer has the
  editor). \<open>Inl\<close> carries the error, \<open>Inr\<close> the value. The steps of the asynchronous
  method are taken in program order, with no other event handled in between.
\<close>

record TextEditor =
  editor_document_uri :: string
  edit :: "Range \<Rightarrow> string \<Rightarrow> string + bool"

record Host =
  parse_toString :: "string \<Rightarrow> string + string"
  textDocuments :: "string list"
  visibleTextEditors :: "TextEditor list"

text \<open>
  The result: how the promise of \<^verbatim>\<open>applyResult\<close> is settled (\<open>Inr\<close> the boolean it is
  fulfilled with, \<open>Inl\<close> the error it is rejected with), the tracker afterwards, and the
  replacement handed to the edit builder (\<open>None\<close> when no edit was attempted). The method
  has no \<^verbatim>\<open>try\<close>: an error of \<^verbatim>\<open>Uri.parse\<close> or of the awaited \<^verbatim>\<open>edit\<close> ends it there,
  before the \<^verbatim>\<open>this.pending.delete(id)\<close> that follows.
\<close>

definition applyResult ::
  "string \<Rightarrow> string \<Rightarrow> Host \<Rightarrow> InsertionTracker \<Rightarrow>
     (string + bool) \<times> InsertionTracker \<times> (Range \<times> string) option" where
  "applyResult ident text host t =
     (case pending t ident of
        None \<Rightarrow> (Inr False, t, None)
      | Some entry \<Rightarrow>
          (case parse_toString host (entry_uri entry) of
             Inl err \<Rightarrow> (Inl err, t, None)
           | Inr uri \<Rightarrow>
               (case find (\<lambda>d. d = uri) (textDocuments host) of
                  None \<Rightarrow> (Inr False, remove ident t, None)
                | Some doc \<Rightarrow>
                    (case find (\<lambda>e. editor_document_uri e = uri) (visibleTextEditors host) of
                       None \<Rightarrow> (Inr False, remove ident t, None)
                     | Some editor \<Rightarrow>
                         (case edit editor (entry_range entry) text of
                            Inl err \<Rightarrow> (Inl err, t, Some (entry_range entry, text))
                          | Inr success \<Rightarrow>
                              (Inr success, remove ident t,
                               Some (entry_range entry, text)))))))"

text \<open>
  The editor that \<^verbatim>\<open>applyResult\<close> writes to: the first visible editor of the entry's
  document, when the URI can be read and the document is open.
\<close>

definition targetEditor :: "Host \<Rightarrow> PendingInsertion \<Rightarrow> TextEditor option" where
  "targetEditor host entry =
     (case parse_toString host (entry_uri entry) of
        Inl err \<Rightarrow> None
      | Inr uri \<Rightarrow>
          (if uri \<in> set (textDocuments host)
           then find (\<lambda>e. editor_document_uri e = uri) (visibleTextEditors host)
           else None))"

text \<open>
  Fixtures in the style of the tracker's tests: one tracked insertion on
  \<^verbatim>\<open>file:///test.ts\<close>, a host that shows that document, one that has closed it, one whose
  editor rejects the edit, and an event that inserts two lines above the tracked range.
\<close>

definition exampleHost :: Host where
  "exampleHost =
     \<lparr>parse_toString = Inr, textDocuments = [''file:///test.ts''],
      visibleTextEditors =
        [\<lparr>editor_document_uri = ''file:///test.ts'', edit = (\<lambda>r s. Inr True)\<rparr>]\<rparr>"

definition closedHost :: Host where
  "closedHost = \<lparr>parse_toString = Inr, textDocuments = [], visibleTextEditors = []\<rparr>"

definition rejectingHost :: Host where
  "rejectingHost =
     \<lparr>parse_toString = Inr, textDocuments = [''file:///test.ts''],
      visibleTextEditors =
        [\<lparr>editor_document_uri = ''file:///test.ts'',
          edit = (\<lambda>r s. Inl ''TextEditor#edit not possible on closed editors'')\<rparr>]\<rparr>"

definition exampleEntry :: PendingInsertion where
  "exampleEntry =
     \<lparr>entry_id = ''r1'', entry_uri = ''file:///test.ts'', entry_range = mkRange 10 0 12 5\<rparr>"

definition exampleTracker :: InsertionTracker where
  "exampleTracker = \<lparr>pending = [''r1'' \<mapsto> exampleEntry]\<rparr>"

definition exampleEvent :: TextDocumentChangeEvent where
  "exampleEvent =
     \<lparr>document_uri = ''file:///test.ts'',
      contentChanges =
        [\<lparr>change_range = mkRange 2 0 2 0, change_text = ''line1\<newline>line2\<newline>''\<rparr>]\<rparr>"

section \<open>The text document\<close>


text \<open>\<^verbatim>\<open>lines[lineNum] ?? ""\<close>: an index outside the array gives the empty string.\<close>

definition lineText :: "string list \<Rightarrow> int \<Rightarrow> string" where
  "lineText lines lineNum =
     (if 0 \<le> lineNum \<and> lineNum < int (length lines) then lines ! nat lineNum else [])"

record TextLine =
  line_text :: string
  lineNumber :: int
  line_range :: Range

definition lineAt :: "string \<Rightarrow> int \<Rightarrow> TextLine" where
  "lineAt content lineNum =
     (let text = lineText (split_newline content) lineNum in
      \<lparr>line_text = text, lineNumber = lineNum,
       line_range = mkRange lineNum 0 lineNum (int (length text))\<rparr>)"

text \<open>
  \<^verbatim>\<open>offsetAt\<close>: the loop adds the length of each line before the position's line, plus
  one for its newline; the column is cut at the length of the position's line.
\<close>

definition offsetAt :: "string \<Rightarrow> Position \<Rightarrow> int" where
  "offsetAt content position =
     (let lines = split_newline content in
      sum_list (map (\<lambda>l. int (length l) + 1) (take (nat (line position)) lines)) +
      min (character position) (int (length (lineText lines (line position)))))"

text \<open>
  \<^verbatim>\<open>positionAt\<close>: the loop over the lines, from line \<open>i\<close> on, with what remains of the
  offset; \<open>None\<close> when the loop runs off the last line.
\<close>

fun positionAtFrom :: "string list \<Rightarrow> int \<Rightarrow> int \<Rightarrow> Position option" where
  "positionAtFrom [] i remaining = None"
| "positionAtFrom (l # ls) i remaining =
     (if remaining \<le> int (length l) then Some \<lparr>line = i, character = remaining\<rparr>
      else positionAtFrom ls (i + 1) (remaining - (int (length l) + 1)))"

definition positionAt :: "string \<Rightarrow> int \<Rightarrow> Position" where
  "positionAt content offset =
     (let lines = split_newline content in
      case positionAtFrom lines 0 offset of
        Some p \<Rightarrow> p
      | None \<Rightarrow> \<lparr>line = int (length lines) - 1,
                  character = int (length (lineText lines (int (length lines) - 1)))\<rparr>)"

text \<open>
  \<^verbatim>\<open>String.prototype.slice\<close> with both arguments: a negative index counts from the end,
  both are cut to the string, and an empty span gives the empty string.
\<close>

definition slice :: "string \<Rightarrow> int \<Rightarrow> int \<Rightarrow> string" where
  "slice s start fin =
     (let len = int (length s);
          from = (if start < 0 then max (len + start) 0 else min start len);
          to = (if fin < 0 then max (len + fin) 0 else min fin len)
      in take (nat (to - from)) (drop (nat from) s))"

definition getText :: "string \<Rightarrow> Range \<Rightarrow> string" where
  "getText content rng =
     slice content (offsetAt content (range_start rng)) (offsetAt content (range_end rng))"

section \<open>The block locator\<close>

text \<open>\<^verbatim>\<open>text[i]\<close>: \<open>None\<close> stands for \<^verbatim>\<open>undefined\<close>, read beyond the end of the text.\<close>

definition charAt :: "string \<Rightarrow> nat \<Rightarrow> char option" where
  "charAt text i = (if i < length text then Some (text ! i) else None)"

text \<open>
  The backward scan \<^verbatim>\<open>for (let i = offset - 1; i >= 0; i--)\<close>. The first argument after
  the text is \<open>i + 1\<close>, so the scan is started at the offset and ends at 0; the result is
  the block start, \<open>None\<close> for \<open>-1\<close>.
\<close>

fun scanBackward :: "string \<Rightarrow> nat \<Rightarrow> nat \<Rightarrow> nat option" where
  "scanBackward text 0 depth = None"
| "scanBackward text (Suc i) depth =
     (if charAt text i = Some (CHR ''}'') then scanBackward text i (depth + 1)
      else if charAt text i = Some (CHR ''{'') then
        (if depth = 0 then Some i else scanBackward text i (depth - 1))
      else scanBackward text i depth)"

text \<open>
  The forward scan on the current line
  \<^verbatim>\<open>for (let i = offset; i < text.length; i++)\<close>: the first argument is what is left of
  the text from index \<open>i\<close> on.
\<close>

fun scanLine :: "string \<Rightarrow> nat \<Rightarrow> nat option" where
  "scanLine [] i = None"
| "scanLine (c # cs) i =
     (if c = newline then None
      else if c = CHR ''{'' then Some i
      else scanLine cs (Suc i))"

text \<open>
  An offset that is not positive starts no backward scan, and a forward scan from a
  negative index reads \<^verbatim>\<open>undefined\<close> up to index 0: both scans start at \<open>nat offset\<close>.
\<close>

definition findBlockStart :: "string \<Rightarrow> int \<Rightarrow> nat option" where
  "findBlockStart text offset =
     (case scanBackward text (nat offset) 0 of
        Some blockStart \<Rightarrow> Some blockStart
      | None \<Rightarrow> scanLine (drop (nat offset) text) (nat offset))"

text \<open>
  The search for the matching closing brace
  \<^verbatim>\<open>for (let i = blockStart + 1; i < text.length; i++)\<close>, again on what is left of the text
  from index \<open>i\<close> on; the result is \<^verbatim>\<open>blockEnd\<close>, one past the closing brace.
\<close>

fun findClose :: "string \<Rightarrow> nat \<Rightarrow> nat \<Rightarrow> nat option" where
  "findClose [] i depth = None"
| "findClose (c # cs) i depth =
     (if c = CHR ''{'' then findClose cs (Suc i) (depth + 1)
      else if c = CHR ''}'' then
        (if depth - 1 = 0 then Some (Suc i) else findClose cs (Suc i) (depth - 1))
      else findClose cs (Suc i) depth)"

text \<open>
  \<^verbatim>\<open>trimEnd\<close> removes trailing white space and line terminators; among the code units
  below 256 these are tab, line feed, vertical tab, form feed, carriage return, space and
  the no-break space.
\<close>

definition isWhiteSpace :: "char \<Rightarrow> bool" where
  "isWhiteSpace c \<longleftrightarrow>
     c \<in> {CHR 0x09, CHR 0x0A, CHR 0x0B, CHR 0x0C, CHR 0x0D, CHR 0x20, CHR 0xA0}"

definition trimEnd :: "string \<Rightarrow> string" where
  "trimEnd s = rev (dropWhile isWhiteSpace (rev s))"

definition endsWith :: "string \<Rightarrow> char \<Rightarrow> bool" where
  "endsWith s c \<longleftrightarrow> s \<noteq> [] \<and> last s = c"

text \<open>The test that stops the walk over the lines above the opening brace.\<close>

definition stopsWalk :: "string \<Rightarrow> bool" where
  "stopsWalk lineText' \<longleftrightarrow>
     lineText' = [] \<or> endsWith lineText' (CHR '';'') \<or> endsWith lineText' (CHR ''}'') \<or>
     endsWith lineText' (CHR ''{'')"

text \<open>
  The walk \<^verbatim>\<open>for (let line = startPos.line - 1; line >= 0; line--)\<close>: the second argument
  is \<open>line + 1\<close>, which is also the current \<^verbatim>\<open>firstLine\<close>; the result is the final
  \<^verbatim>\<open>firstLine\<close>.
\<close>

fun walkUp :: "string list \<Rightarrow> nat \<Rightarrow> nat" where
  "walkUp lines 0 = 0"
| "walkUp lines (Suc l) =
     (if stopsWalk (trimEnd (lineText lines (int l))) then Suc l else walkUp lines l)"

text \<open>The end of \<^verbatim>\<open>getEnclosingBlock\<close>, once both braces are found.\<close>

definition blockResult :: "string \<Rightarrow> nat \<Rightarrow> nat \<Rightarrow> string \<times> Range" where
  "blockResult content blockStart blockEnd =
     (let startPos = positionAt content (int blockStart);
          firstLine = walkUp (split_newline content) (nat (line startPos));
          endPos = positionAt content (int blockEnd);
          endLine = lineAt content (line endPos);
          rng = newRange \<lparr>line = int firstLine, character = 0\<rparr> (range_end (line_range endLine))
      in (getText content rng, rng))"

definition getEnclosingBlock :: "string \<Rightarrow> Position \<Rightarrow> (string \<times> Range) option" where
  "getEnclosingBlock content position =
     (let text = content;
          offset = offsetAt content position
      in case findBlockStart text offset of
           None \<Rightarrow> None
         | Some blockStart \<Rightarrow>
             (case findClose (drop (Suc blockStart) text) (Suc blockStart) 1 of
                None \<Rightarrow> None
              | Some blockEnd \<Rightarrow> Some (blockResult content blockStart blockEnd)))"

section \<open>Notions used to state the properties\<close>

text \<open>
  The position at which a text ends: the number of its last line, and the length of
  that line.
\<close>

definition endPosition :: "string \<Rightarrow> Position" where
  "endPosition s =
     \<lparr>line = int (length (split_newline s)) - 1,
      character = int (length (last (split_newline s)))\<rparr>"

text \<open>A position of a document: on one of its lines, and not beyond the end of that line.\<close>

definition positionIn :: "string \<Rightarrow> Position \<Rightarrow> bool" where
  "positionIn content p \<longleftrightarrow>
     0 \<le> line p \<and> line p < int (length (split_newline content)) \<and>
     0 \<le> character p \<and>
     character p \<le> int (length (lineText (split_newline content) (line p)))"

text \<open>
  The document after the editor has made a change: the text of the replaced range gives
  way to the new text. The tracker never computes this; it is what the positions of a
  shifted range are positions of.
\<close>

definition applyChange :: "string \<Rightarrow> ContentChange \<Rightarrow> string" where
  "applyChange content change =
     take (nat (offsetAt content (range_start (change_range change)))) content @
     change_text change @
     drop (nat (offsetAt content (range_end (change_range change)))) content"

text \<open>
  A document of two lines, the replacement of its first word by two lines of text, and a
  document of six lines.
\<close>

definition helloExample :: string where
  "helloExample = ''hello world\<newline>second''"

definition helloChange :: ContentChange where
  "helloChange = \<lparr>change_range = mkRange 0 0 0 5, change_text = ''hi\<newline>dear''\<rparr>"

definition sixLinesExample :: string where
  "sixLinesExample = ''a\<newline>b\<newline>c\<newline>d\<newline>e\<newline>abcdef''"

abbreviation lbrace :: char where "lbrace \<equiv> CHR ''{''"
abbreviation rbrace :: char where "rbrace \<equiv> CHR ''}''"

text \<open>
  A text is balanced when no prefix closes more braces than it opens and the whole text
  opens as many as it closes.
\<close>

definition balanced :: "string \<Rightarrow> bool" where
  "balanced s \<longleftrightarrow>
     (\<forall>p \<in> set (prefixes s). count_list p rbrace \<le> count_list p lbrace) \<and>
     count_list s lbrace = count_list s rbrace"

text \<open>The inverse of \<open>split_newline\<close>: the lines with a newline between each two.\<close>

fun join_newline :: "string list \<Rightarrow> string" where
  "join_newline [] = []"
| "join_newline [l] = l"
| "join_newline (l # m # ls) = l @ newline # join_newline (m # ls)"

text \<open>
  The number of the line that holds the character at an offset (the newlines before it),
  and the offset at which a line starts.
\<close>

definition lineOf :: "string \<Rightarrow> nat \<Rightarrow> nat" where
  "lineOf content offset = count_list (take offset content) newline"

definition lineStart :: "string list \<Rightarrow> nat \<Rightarrow> nat" where
  "lineStart ls n = sum_list (map (\<lambda>l. length l + 1) (take n ls))"

text \<open>
  A line trimmed of its trailing white space, in the words of the description rather than
  by the library function: \<open>body\<close> is what is left of the line \<open>s\<close> when \<open>s\<close> is \<open>body\<close>
  followed by white space only, and \<open>body\<close> does not itself end in white space.
\<close>

definition trimsTo :: "string \<Rightarrow> string \<Rightarrow> bool" where
  "trimsTo s body \<longleftrightarrow>
     prefix body s \<and> (\<forall>c \<in> set (drop (length body) s). isWhiteSpace c) \<and>
     (body = [] \<or> \<not> isWhiteSpace (last body))"

text \<open>Texts of the block locator's tests, and one with its only block on another line.\<close>

definition nestedExample :: string where
  "nestedExample =
     ''function outer() {\<newline>  function inner() {\<newline>    return 1;\<newline>  }\<newline>}''"

definition signatureExample :: string where
  "signatureExample =
     ''function foo(\<newline>  a: number,\<newline>  b: number\<newline>) {\<newline>  return a + b;\<newline>}''"

definition noBraceExample :: string where
  "noBraceExample = ''const x = 1;\<newline>const y = 2;''"

definition unmatchedExample :: string where
  "unmatchedExample = ''function foo() {\<newline>  const x = 1;''"

definition otherLineExample :: string where
  "otherLineExample = ''x = 1;\<newline>if (a) { }''"


section \<open>Lines and offsets of a text\<close>

lemma split_newline_not_Nil: "split_newline s \<noteq> []"
  by (induction s) (auto split: list.splits)

lemma length_split_newline: "length (split_newline s) = Suc (count_list s newline)"
  by (induction s) (auto simp: split_newline_not_Nil split: list.splits)

lemma lineStart_0: "lineStart ls 0 = 0"
  by (simp add: lineStart_def)

lemma lineStart_Suc: "lineStart (l # ls) (Suc n) = length l + 1 + lineStart ls n"
  by (simp add: lineStart_def)

lemma join_newline_Cons:
  "join_newline (l # ls) = l @ (if ls = [] then [] else newline # join_newline ls)"
  by (cases ls) simp_all

lemma join_split_newline: "join_newline (split_newline s) = s"
proof (induction s)
  case Nil
  show ?case by simp
next
  case (Cons c cs)
  show ?case
  proof (cases "c = newline")
    case True
    with Cons show ?thesis
      by (simp add: join_newline_Cons split_newline_not_Nil)
  next
    case False
    obtain l ls where sp: "split_newline cs = l # ls"
      using split_newline_not_Nil [of cs] by (cases "split_newline cs") auto
    with Cons have "cs = join_newline (l # ls)" by simp
    with False sp show ?thesis
      by (simp add: join_newline_Cons)
  qed
qed

lemma split_newline_no_newline: "l \<in> set (split_newline s) \<Longrightarrow> newline \<notin> set l"
proof (induction s arbitrary: l)
  case Nil
  then show ?case by simp
next
  case (Cons c cs)
  then show ?case
    by (auto split: if_splits list.splits)
qed

lemma sum_list_int_lengths:
  "sum_list (map (\<lambda>l. int (length l) + 1) xs) = int (sum_list (map (\<lambda>l. length l + 1) xs))"
  by (induction xs) simp_all

lemma positionAtFrom_line:
  assumes "\<forall>l \<in> set ls. newline \<notin> set l" and "ls \<noteq> []" and "off \<le> length (join_newline ls)"
  shows "\<exists>c. positionAtFrom ls i (int off) =
           Some \<lparr>line = i + int (count_list (take off (join_newline ls)) newline), character = c\<rparr>"
  using assms
proof (induction ls arbitrary: i off)
  case Nil
  then show ?case by simp
next
  case (Cons l ls)
  from Cons.prems(1) have nl: "newline \<notin> set l" by simp
  then have cl: "count_list l newline = 0" by (simp add: count_list_0_iff)
  show ?case
  proof (cases "off \<le> length l")
    case True
    then have "take off (join_newline (l # ls)) = take off l"
      by (simp add: join_newline_Cons)
    moreover have "newline \<notin> set (take off l)"
      using nl by (meson in_set_takeD)
    ultimately have "count_list (take off (join_newline (l # ls))) newline = 0"
      by (simp add: count_list_0_iff)
    with True show ?thesis by simp
  next
    case False
    with Cons.prems(3) have ne: "ls \<noteq> []"
      by (auto simp: join_newline_Cons split: if_splits)
    then have j: "join_newline (l # ls) = l @ newline # join_newline ls"
      by (simp add: join_newline_Cons)
    define off' where "off' = off - length l - 1"
    from False have off: "off = length l + 1 + off'" by (simp add: off'_def)
    with Cons.prems(3) j have le: "off' \<le> length (join_newline ls)" by simp
    from Cons.prems(1) have "\<forall>l \<in> set ls. newline \<notin> set l" by simp
    from Cons.IH [OF this ne le, of "i + 1"]
    obtain c where "positionAtFrom ls (i + 1) (int off') =
        Some \<lparr>line = i + 1 + int (count_list (take off' (join_newline ls)) newline), character = c\<rparr>"
      by blast
    moreover have "count_list (take off (join_newline (l # ls))) newline =
        1 + count_list (take off' (join_newline ls)) newline"
      by (simp add: j off cl)
    moreover have "int off - (int (length l) + 1) = int off'" by (simp add: off)
    ultimately show ?thesis using False by simp
  qed
qed

lemma positionAt_line:
  assumes "off \<le> length content"
  shows "line (positionAt content (int off)) = int (lineOf content off)"
proof -
  have "\<forall>l \<in> set (split_newline content). newline \<notin> set l"
    using split_newline_no_newline by blast
  from positionAtFrom_line [where ls = "split_newline content" and off = off and i = 0,
      OF this split_newline_not_Nil] assms
  obtain c where "positionAtFrom (split_newline content) 0 (int off) =
      Some \<lparr>line = int (count_list (take off content) newline), character = c\<rparr>"
    by (auto simp: join_split_newline)
  then show ?thesis by (simp add: positionAt_def lineOf_def)
qed

lemma drop_lineStart:
  "n < length ls \<Longrightarrow> drop (lineStart ls n) (join_newline ls) = join_newline (drop n ls)"
proof (induction ls arbitrary: n)
  case Nil
  then show ?case by simp
next
  case (Cons l ls)
  show ?case
  proof (cases n)
    case 0
    then show ?thesis by (simp add: lineStart_0)
  next
    case (Suc m)
    with Cons.prems have m: "m < length ls" by simp
    then have "ls \<noteq> []" by auto
    then have j: "join_newline (l # ls) = l @ newline # join_newline ls"
      by (simp add: join_newline_Cons)
    from Cons.IH [OF m] show ?thesis
      by (simp add: Suc j lineStart_Suc)
  qed
qed

lemma take_lineEnd:
  "k < length ms \<Longrightarrow>
   take (lineStart ms k + length (ms ! k)) (join_newline ms) = join_newline (take (Suc k) ms)"
proof (induction ms arbitrary: k)
  case Nil
  then show ?case by simp
next
  case (Cons m ms)
  show ?case
  proof (cases k)
    case 0
    then show ?thesis by (simp add: join_newline_Cons lineStart_0)
  next
    case (Suc j)
    with Cons.prems have j: "j < length ms" by simp
    then have ne: "ms \<noteq> []" by auto
    then have jn: "join_newline (m # ms) = m @ newline # join_newline ms"
      by (simp add: join_newline_Cons)
    from j have tne: "take (Suc j) ms \<noteq> []" using ne by (cases ms) auto
    from Cons.IH [OF j] show ?thesis
      by (simp add: Suc jn join_newline_Cons [of m] tne lineStart_Suc)
  qed
qed

lemma lineEnd_le:
  "k < length ms \<Longrightarrow> lineStart ms k + length (ms ! k) \<le> length (join_newline ms)"
proof (induction ms arbitrary: k)
  case Nil
  then show ?case by simp
next
  case (Cons m ms)
  show ?case
  proof (cases k)
    case 0
    then show ?thesis by (simp add: join_newline_Cons lineStart_0)
  next
    case (Suc j)
    with Cons.prems have j: "j < length ms" by simp
    then have "ms \<noteq> []" by auto
    then have jn: "join_newline (m # ms) = m @ newline # join_newline ms"
      by (simp add: join_newline_Cons)
    from Cons.IH [OF j] show ?thesis
      by (simp add: Suc jn lineStart_Suc)
  qed
qed

lemma lineStart_drop:
  "f \<le> e \<Longrightarrow> lineStart ls e = lineStart ls f + lineStart (drop f ls) (e - f)"
proof -
  assume "f \<le> e"
  then have "take e ls = take f ls @ take (e - f) (drop f ls)"
    by (metis le_add_diff_inverse take_add)
  then show ?thesis by (simp add: lineStart_def)
qed

lemma lineText_nth: "n < length ls \<Longrightarrow> lineText ls (int n) = ls ! n"
  by (simp add: lineText_def)

lemma offsetAt_line_start:
  assumes "f < length (split_newline content)"
  shows "offsetAt content \<lparr>line = int f, character = 0\<rparr> = int (lineStart (split_newline content) f)"
  by (simp add: offsetAt_def sum_list_int_lengths lineStart_def Let_def)

lemma offsetAt_line_end:
  assumes "e < length (split_newline content)"
  shows "offsetAt content \<lparr>line = int e, character = int (length (split_newline content ! e))\<rparr> =
           int (lineStart (split_newline content) e + length (split_newline content ! e))"
  using assms by (simp add: offsetAt_def sum_list_int_lengths lineText_nth lineStart_def Let_def)

lemma slice_nat:
  assumes "a \<le> b" and "b \<le> length s"
  shows "slice s (int a) (int b) = take (b - a) (drop a s)"
proof -
  from assms have "min (int a) (int (length s)) = int a" "min (int b) (int (length s)) = int b"
    by simp_all
  moreover from assms have "nat (int b - int a) = b - a" by simp
  ultimately show ?thesis by (simp add: slice_def Let_def)
qed


lemma getText_lines:
  assumes "f \<le> e" and "e < length (split_newline content)"
  shows "getText content (mkRange (int f) 0 (int e) (int (length (split_newline content ! e)))) =
           join_newline (take (Suc e - f) (drop f (split_newline content)))"
proof -
  let ?ls = "split_newline content"
  define A where "A = lineStart ?ls f"
  define B where "B = lineStart ?ls e + length (?ls ! e)"
  from assms have f: "f < length ?ls" by simp
  have c: "join_newline ?ls = content" by (rule join_split_newline)
  have k: "e - f < length (drop f ?ls)" using assms by simp
  have nth: "drop f ?ls ! (e - f) = ?ls ! e" using assms by simp
  have AB: "B - A = lineStart (drop f ?ls) (e - f) + length (drop f ?ls ! (e - f))" and le: "A \<le> B"
    using lineStart_drop [OF assms(1), of ?ls] nth by (simp_all add: A_def B_def)
  have "drop A content = join_newline (drop f ?ls)"
    using drop_lineStart [OF f] c by (simp add: A_def)
  then have "take (B - A) (drop A content) = join_newline (take (Suc (e - f)) (drop f ?ls))"
    using take_lineEnd [OF k] AB by simp
  moreover have "B \<le> length content"
    using lineEnd_le [OF assms(2)] c by (simp add: B_def)
  moreover have "Suc (e - f) = Suc e - f" using assms(1) by simp
  moreover have "getText content (mkRange (int f) 0 (int e) (int (length (?ls ! e)))) =
      slice content (int A) (int B)"
    using offsetAt_line_start [OF f] offsetAt_line_end [OF assms(2)]
    by (simp add: getText_def mkRange_def A_def B_def)
  ultimately show ?thesis
    using slice_nat [OF le] by simp
qed

subsection \<open>The position at the end of a prefix\<close>

lemma split_newline_append:
  "split_newline (a @ b) =
     butlast (split_newline a) @ (last (split_newline a) @ hd (split_newline b)) # tl (split_newline b)"
proof (induction a)
  case Nil
  then show ?case using split_newline_not_Nil [of b] by simp
next
  case (Cons c a)
  obtain l ls where sp: "split_newline a = l # ls"
    using split_newline_not_Nil [of a] by (cases "split_newline a") auto
  show ?case
  proof (cases "c = newline")
    case True
    with Cons sp show ?thesis by simp
  next
    case False
    with Cons sp show ?thesis
      by (cases ls) (simp_all split: list.splits)
  qed
qed

lemma length_lines:
  "lineStart (split_newline a) (length (split_newline a) - 1) + length (last (split_newline a))
     = length a"
proof (induction a)
  case Nil
  show ?case by (simp add: lineStart_def)
next
  case (Cons c a)
  obtain l ls where sp: "split_newline a = l # ls"
    using split_newline_not_Nil [of a] by (cases "split_newline a") auto
  show ?case
  proof (cases "c = newline")
    case True
    with Cons sp show ?thesis by (simp add: lineStart_def)
  next
    case False
    with Cons sp show ?thesis
      by (cases ls) (simp_all add: lineStart_def)
  qed
qed

lemma split_newline_single: "newline \<notin> set y \<Longrightarrow> split_newline y = [y]"
  by (induction y) auto

lemma split_newline_append_cases:
  obtains xs z h t where "split_newline a = xs @ [z]" and "split_newline b = h # t"
    and "split_newline (a @ b) = xs @ (z @ h) # t"
proof -
  obtain xs z where a: "split_newline a = xs @ [z]"
    using split_newline_not_Nil [of a] by (cases "split_newline a" rule: rev_cases) auto
  obtain h t where b: "split_newline b = h # t"
    using split_newline_not_Nil [of b] by (cases "split_newline b") auto
  from a b have "split_newline (a @ b) = xs @ (z @ h) # t"
    by (simp add: split_newline_append)
  with a b that show ?thesis by blast
qed

lemma length_lines_snoc:
  assumes "split_newline a = xs @ [z]"
  shows "lineStart xs (length xs) + length z = length a"
proof -
  from length_lines [of a] assms have "lineStart (xs @ [z]) (length xs) + length z = length a"
    by simp
  then show ?thesis by (simp add: lineStart_def)
qed

lemma endPosition_snoc:
  "split_newline a = xs @ [z] \<Longrightarrow> endPosition a = \<lparr>line = int (length xs), character = int (length z)\<rparr>"
  by (simp add: endPosition_def)

lemma offsetAt_endPosition: "offsetAt (a @ b) (endPosition a) = int (length a)"
proof -
  obtain xs z h t where a: "split_newline a = xs @ [z]" and b: "split_newline b = h # t"
    and ab: "split_newline (a @ b) = xs @ (z @ h) # t"
    by (rule split_newline_append_cases)
  have "offsetAt (a @ b) (endPosition a) = int (lineStart xs (length xs)) + int (length z)"
    by (simp add: offsetAt_def endPosition_snoc [OF a] ab lineText_def Let_def
        sum_list_int_lengths lineStart_def)
  also have "\<dots> = int (length a)"
    using length_lines_snoc [OF a] by simp
  finally show ?thesis .
qed

lemma positionIn_endPosition: "positionIn (a @ b) (endPosition a)"
proof -
  obtain xs z h t where a: "split_newline a = xs @ [z]" and b: "split_newline b = h # t"
    and ab: "split_newline (a @ b) = xs @ (z @ h) # t"
    by (rule split_newline_append_cases)
  show ?thesis
    by (simp add: positionIn_def endPosition_snoc [OF a] ab lineText_def)
qed

lemma endPosition_append:
  "endPosition (x @ y) =
     \<lparr>line = line (endPosition x) + int (count_list y newline),
      character =
        (if count_list y newline = 0 then character (endPosition x) + int (length y)
         else int (length (last (split_newline y))))\<rparr>"
proof -
  obtain xs z h t where x: "split_newline x = xs @ [z]" and y: "split_newline y = h # t"
    and xy: "split_newline (x @ y) = xs @ (z @ h) # t"
    by (rule split_newline_append_cases)
  from length_split_newline [of y] y have c: "count_list y newline = length t" by simp
  show ?thesis
  proof (cases "t = []")
    case True
    with c have "newline \<notin> set y" by (simp add: count_list_0_iff)
    then have "split_newline y = [y]" by (rule split_newline_single)
    with y have "h = y" by simp
    with True c show ?thesis
      by (simp add: endPosition_def x xy)
  next
    case False
    with c y show ?thesis
      by (simp add: endPosition_def x xy)
  qed
qed

lemma lineStart_Suc_nth:
  "k < length ls \<Longrightarrow> lineStart ls (Suc k) = lineStart ls k + length (ls ! k) + 1"
  by (simp add: lineStart_def take_Suc_conv_app_nth)

lemma lineStart_mono: "m \<le> n \<Longrightarrow> lineStart ls m \<le> lineStart ls n"
  using lineStart_drop [of m n ls] by simp

lemma line_offset_unique_aux:
  assumes "lineStart ls k + x = lineStart ls l + y" and "x \<le> length (ls ! k)"
    and "k < length ls"
  shows "\<not> k < l"
proof
  assume "k < l"
  then have "lineStart ls (Suc k) \<le> lineStart ls l" by (intro lineStart_mono) simp
  with assms(3) have "lineStart ls k + length (ls ! k) + 1 \<le> lineStart ls l"
    by (simp add: lineStart_Suc_nth)
  with assms(1,2) show False by simp
qed

lemma line_offset_unique:
  assumes "lineStart ls k + x = lineStart ls l + y"
    and "x \<le> length (ls ! k)" and "y \<le> length (ls ! l)"
    and "k < length ls" and "l < length ls"
  shows "k = l \<and> x = y"
proof -
  from line_offset_unique_aux [OF assms(1,2,4)] have "\<not> k < l" .
  moreover from line_offset_unique_aux [OF assms(1) [symmetric] assms(3,5)] have "\<not> l < k" .
  ultimately have "k = l" by simp
  with assms(1) show ?thesis by simp
qed

lemma offsetAt_positionIn:
  assumes "positionIn content p"
  shows "offsetAt content p =
           int (lineStart (split_newline content) (nat (line p)) + nat (character p))"
    and "lineStart (split_newline content) (nat (line p)) + nat (character p) \<le> length content"
proof -
  let ?ls = "split_newline content"
  from assms have l0: "0 \<le> line p" and li: "line p < int (length ?ls)"
    and c0: "0 \<le> character p"
    and c: "character p \<le> int (length (lineText ?ls (line p)))"
    by (simp_all add: positionIn_def)
  from l0 li have l: "nat (line p) < length ?ls" by arith
  from li l0 have lt: "lineText ?ls (line p) = ?ls ! nat (line p)"
    by (simp add: lineText_def)
  with c c0 have cn: "nat (character p) \<le> length (?ls ! nat (line p))" by simp
  from c c0 show "offsetAt content p = int (lineStart ?ls (nat (line p)) + nat (character p))"
    by (simp add: offsetAt_def Let_def sum_list_int_lengths lineStart_def)
  from lineEnd_le [OF l] have "lineStart ?ls (nat (line p)) + length (?ls ! nat (line p)) \<le> length content"
    by (simp add: join_split_newline)
  with cn show "lineStart ?ls (nat (line p)) + nat (character p) \<le> length content" by simp
qed

lemma endPosition_take_offsetAt:
  assumes "positionIn content p"
  shows "endPosition (take (nat (offsetAt content p)) content) = p"
proof -
  let ?ls = "split_newline content"
  define off where "off = lineStart ?ls (nat (line p)) + nat (character p)"
  from offsetAt_positionIn [OF assms] have "offsetAt content p = int off"
    and le: "off \<le> length content"
    by (simp_all only: off_def)
  then have o: "nat (offsetAt content p) = off" by simp
  define a where "a = take off content"
  define b where "b = drop off content"
  have ab: "content = a @ b" by (simp add: a_def b_def)
  from le have la: "length a = off" by (simp add: a_def)
  obtain xs z h t where sa: "split_newline a = xs @ [z]" and sb: "split_newline b = h # t"
    and sab: "split_newline (a @ b) = xs @ (z @ h) # t"
    by (rule split_newline_append_cases)
  from sab ab have ls: "?ls = xs @ (z @ h) # t" by simp
  from assms have l0: "0 \<le> line p" and li: "line p < int (length ?ls)"
    and c0: "0 \<le> character p"
    and c: "character p \<le> int (length (lineText ?ls (line p)))"
    by (simp_all add: positionIn_def)
  from l0 li have l: "nat (line p) < length ?ls" by arith
  from li l0 have "lineText ?ls (line p) = ?ls ! nat (line p)"
    by (simp add: lineText_def)
  with c c0 have cn: "nat (character p) \<le> length (?ls ! nat (line p))" by simp
  have "lineStart ?ls (length xs) = lineStart xs (length xs)"
    by (simp add: ls lineStart_def)
  with length_lines_snoc [OF sa] la have
    "lineStart ?ls (length xs) + length z = lineStart ?ls (nat (line p)) + nat (character p)"
    by (simp add: off_def)
  moreover have "length z \<le> length (?ls ! length xs)" by (simp add: ls)
  moreover have "length xs < length ?ls" by (simp add: ls)
  ultimately have "length xs = nat (line p) \<and> length z = nat (character p)"
    using cn l by (intro line_offset_unique)
  with l0 c0 have "endPosition a = p"
    by (simp add: endPosition_snoc [OF sa])
  then show ?thesis by (simp add: o a_def)
qed

section \<open>Properties of the tracker\<close>

lemma addedLineCount_count: "addedLineCount c = int (count_list (change_text c) newline)"
  by (simp add: addedLineCount_def length_split_newline)

lemma addedLineCount_nonneg: "0 \<le> addedLineCount c"
  by (simp add: addedLineCount_count)

lemma lastNewLineLength_nonneg: "0 \<le> lastNewLineLength c"
  by (simp add: lastNewLineLength_def)

lemma lineDelta_lower:
  "line (range_start (change_range c)) - line (range_end (change_range c)) \<le> lineDelta c"
  using addedLineCount_nonneg [of c] by (simp add: lineDelta_def removedLineCount_def)

lemmas shift_defs = shiftRange_def changeAfter_def changeBeforeLine_def
  changeEndsOnStartLine_def translate_def lineDelta_def removedLineCount_def Let_def

lemma mkRange_sel:
  "line (range_start (mkRange a b c d)) = a" "character (range_start (mkRange a b c d)) = b"
  "line (range_end (mkRange a b c d)) = c" "character (range_end (mkRange a b c d)) = d"
  by (simp_all add: mkRange_def)

lemma mkRange_eqI:
  assumes "line (range_start r) = a" and "character (range_start r) = b"
    and "line (range_end r) = c" and "character (range_end r) = d"
  shows "r = mkRange a b c d"
  using assms by (simp add: mkRange_def Range.equality Position.equality)

text \<open>The range constructor keeps two positions that are in order.\<close>

lemma newRange_ordered:
  "\<not> isAfter start fin \<Longrightarrow> newRange start fin = \<lparr>range_start = start, range_end = fin\<rparr>"
  by (cases start; cases fin) (auto simp: newRange_def isAfter_def isBefore_def)

lemma isAfter_translate:
  "isAfter (translate p d 0) (translate q d 0) \<longleftrightarrow> isAfter p q"
  by (auto simp: isAfter_def translate_def)

subsection \<open>Registering an id twice\<close>

text \<open>
  C1, as stated: whenever the id is already tracked, \<open>track\<close> with that id is rejected
  as an error. It is not: \<open>track\<close> has no test of the map, and with \<open>''r1''\<close> tracked a
  second \<open>track\<close> of \<open>''r1''\<close> returns normally.
\<close>

theorem track_tracked_id_counterexample:
  "pending \<lparr>pending = [''r1'' \<mapsto> \<lparr>entry_id = ''r1'', entry_uri = ''d'',
                                   entry_range = mkRange 5 0 5 10\<rparr>]\<rparr> ''r1'' \<noteq> None
   \<and> \<not> isl (track ''r1'' ''d'' (mkRange 7 0 7 3)
         \<lparr>pending = [''r1'' \<mapsto> \<lparr>entry_id = ''r1'', entry_uri = ''d'',
                                   entry_range = mkRange 5 0 5 10\<rparr>]\<rparr>)"
  by (simp add: track_def)

text \<open>
  C1, amended: for every tracker state and every id that is already tracked, \<open>track\<close>
  with that id returns normally and replaces the entry: afterwards the id maps to the new
  document and range, every other entry is as before, and the number of tracked entries
  is unchanged.
\<close>

theorem track_tracked_id_overwrites:
  assumes "pending t ident \<noteq> None"
  shows "\<exists>t'. track ident uri rng t = Inr t'
           \<and> pending t' ident = Some \<lparr>entry_id = ident, entry_uri = uri, entry_range = rng\<rparr>
           \<and> (\<forall>k. k \<noteq> ident \<longrightarrow> pending t' k = pending t k)
           \<and> activeCount t' = activeCount t"
proof -
  from assms have "ident \<in> dom (pending t)" by auto
  then have "insert ident (dom (pending t)) = dom (pending t)" by auto
  then show ?thesis by (simp add: track_def activeCount_def)
qed

theorem track_tracked_id_overwrites_witness:
  "\<exists>t'. track ''r1'' ''d'' (mkRange 7 0 7 3)
            \<lparr>pending = [''r1'' \<mapsto> \<lparr>entry_id = ''r1'', entry_uri = ''d'',
                                      entry_range = mkRange 5 0 5 10\<rparr>]\<rparr> = Inr t'
         \<and> pending t' ''r1'' = Some \<lparr>entry_id = ''r1'', entry_uri = ''d'',
                                      entry_range = mkRange 7 0 7 3\<rparr>
         \<and> activeCount t' = 1"
  using track_tracked_id_overwrites [of
      "\<lparr>pending = [''r1'' \<mapsto> \<lparr>entry_id = ''r1'', entry_uri = ''d'',
                                  entry_range = mkRange 5 0 5 10\<rparr>]\<rparr>"
      "''r1''" "''d''" "mkRange 7 0 7 3"]
  by (auto simp: activeCount_def)

subsection \<open>A change on an earlier line\<close>

text \<open>
  C2: for a range \<open>R\<close> and a change \<open>C\<close>, each with its start not after its end, where
  the replaced range ends on a line strictly before the start line of \<open>R\<close>, \<open>shiftRange\<close>
  adds \<open>lineDelta C\<close> to the line of both endpoints and keeps both columns, and
  \<open>lineDelta C\<close> is the number of newlines of the inserted text minus the number of lines
  the replaced range spans.
\<close>

theorem shiftRange_change_on_earlier_line:
  assumes "\<not> isAfter (range_start R) (range_end R)"
    and "\<not> isAfter (range_start (change_range C)) (range_end (change_range C))"
    and "line (range_end (change_range C)) < line (range_start R)"
  shows "shiftRange R C =
           \<lparr>range_start = \<lparr>line = line (range_start R) + lineDelta C,
                            character = character (range_start R)\<rparr>,
            range_end = \<lparr>line = line (range_end R) + lineDelta C,
                          character = character (range_end R)\<rparr>\<rparr>
         \<and> lineDelta C = int (count_list (change_text C) newline)
               - (line (range_end (change_range C)) - line (range_start (change_range C)))"
proof -
  from assms(2,3) have "\<not> changeAfter R C"
    using assms(1) by (auto simp: changeAfter_def isAfter_def Let_def)
  moreover from assms(3) have "changeBeforeLine R C"
    by (simp add: changeBeforeLine_def)
  ultimately have "shiftRange R C =
      newRange (translate (range_start R) (lineDelta C) 0) (translate (range_end R) (lineDelta C) 0)"
    by (simp add: shiftRange_def)
  also from assms(1) have "\<dots> =
      \<lparr>range_start = translate (range_start R) (lineDelta C) 0,
       range_end = translate (range_end R) (lineDelta C) 0\<rparr>"
    by (intro newRange_ordered) (simp add: isAfter_translate)
  finally show ?thesis
    by (simp add: translate_def lineDelta_def removedLineCount_def addedLineCount_count)
qed

text \<open>
  The scenario of C2: the range (10, 0)-(12, 5) and two newline-terminated lines inserted
  at (2, 0) give (12, 0)-(14, 5).
\<close>

theorem shiftRange_change_on_earlier_line_witness:
  "shiftRange (mkRange 10 0 12 5)
      \<lparr>change_range = mkRange 2 0 2 0, change_text = ''line1\<newline>line2\<newline>''\<rparr>
     = mkRange 12 0 14 5
   \<and> lineDelta \<lparr>change_range = mkRange 2 0 2 0, change_text = ''line1\<newline>line2\<newline>''\<rparr> = 2"
  using shiftRange_change_on_earlier_line [of "mkRange 10 0 12 5"
      "\<lparr>change_range = mkRange 2 0 2 0, change_text = ''line1\<newline>line2\<newline>''\<rparr>"]
  by (simp add: isAfter_def mkRange_def)

subsection \<open>A change that ends on the start line\<close>

lemma shiftRange_same_line:
  assumes "\<not> changeAfter R C" and "changeEndsOnStartLine R C"
    and "\<not> isAfter (range_start R) (range_end R)"
  shows "line (range_start (shiftRange R C)) = line (range_start R) + lineDelta C
       \<and> character (range_start (shiftRange R C)) =
           (if count_list (change_text C) newline = 0
            then character (range_start R) +
                 (int (length (last (split_newline (change_text C)))) -
                  (character (range_end (change_range C)) - character (range_start (change_range C))))
            else character (range_start R) - character (range_end (change_range C)) +
                 int (length (last (split_newline (change_text C)))))
       \<and> line (range_end (shiftRange R C)) = line (range_end R) + lineDelta C
       \<and> character (range_end (shiftRange R C)) =
           (if line (range_start R) = line (range_end R)
            then character (range_end R) +
                 (character (range_start (shiftRange R C)) - character (range_start R))
            else character (range_end R))"
proof -
  define sc where "sc =
    (if count_list (change_text C) newline = 0
     then character (range_start R) +
          (int (length (last (split_newline (change_text C)))) -
           (character (range_end (change_range C)) - character (range_start (change_range C))))
     else character (range_start R) - character (range_end (change_range C)) +
          int (length (last (split_newline (change_text C)))))"
  define ec where "ec =
    (if line (range_start R) = line (range_end R)
     then character (range_end R) + (sc - character (range_start R))
     else character (range_end R))"
  let ?s = "\<lparr>line = line (range_start R) + lineDelta C, character = sc\<rparr>"
  let ?e = "\<lparr>line = line (range_end R) + lineDelta C, character = ec\<rparr>"
  from assms(2) have nb: "\<not> changeBeforeLine R C"
    by (simp add: changeBeforeLine_def changeEndsOnStartLine_def Let_def)
  have ec: "ec =
    (if count_list (change_text C) newline = 0
     then (if line (range_start R) = line (range_end R)
           then character (range_end R) +
                (int (length (last (split_newline (change_text C)))) -
                 (character (range_end (change_range C)) - character (range_start (change_range C))))
           else character (range_end R))
     else (if line (range_start R) = line (range_end R)
           then character (range_end R) - character (range_end (change_range C)) +
                int (length (last (split_newline (change_text C))))
           else character (range_end R)))"
    by (simp add: ec_def sc_def)
  have "shiftRange R C = newRange ?s ?e"
    unfolding ec
    by (simp add: shiftRange_def assms(1,2) nb addedLineCount_count lastNewLineLength_def
        sc_def Let_def)
  moreover from assms(3) have "\<not> isAfter ?s ?e"
    by (auto simp: isAfter_def ec_def)
  ultimately have "shiftRange R C = \<lparr>range_start = ?s, range_end = ?e\<rparr>"
    using newRange_ordered [of ?s ?e] by simp
  then show ?thesis
    by (simp add: sc_def ec_def)
qed

text \<open>
  Among well-formed ranges, the first test of \<open>shiftRange\<close> and its third test hold
  together exactly when the tracked range is empty and the change is an insertion at that
  very position.
\<close>

lemma changeAfter_on_start_line:
  assumes "wellFormed R" and "wellFormed (change_range C)" and "changeEndsOnStartLine R C"
  shows "changeAfter R C \<longleftrightarrow>
           isEmpty R \<and> isEmpty (change_range C) \<and>
           isEqual (range_start (change_range C)) (range_start R)"
  using assms
  by (auto simp: wellFormed_def changeEndsOnStartLine_def changeAfter_def isEmpty_def
      isEqual_def isAfter_def Let_def)

text \<open>
  C3, as stated: whenever the replaced range ends on the start line of \<open>R\<close>, at or before
  its start column, the start column is recomputed from the length of the last inserted
  line, so that the start stays at the same character boundary. For the empty range at
  (5, 3) and the insertion of \<open>''ab''\<close> at (5, 3) the first test of \<open>shiftRange\<close> (change
  start at or after the range end) comes first: the range is returned as it is, its start
  column 3 and not 3 + 2. In the document whose line 5 is \<open>abcdef\<close> the start was before
  \<open>def\<close> and is before \<open>abdef\<close> afterwards.
\<close>

theorem shiftRange_same_line_counterexample:
  "line (range_end (mkRange 5 3 5 3)) = line (range_start (mkRange 5 3 5 3))
   \<and> character (range_end (mkRange 5 3 5 3)) \<le> character (range_start (mkRange 5 3 5 3))
   \<and> shiftRange (mkRange 5 3 5 3) \<lparr>change_range = mkRange 5 3 5 3, change_text = ''ab''\<rparr>
       = mkRange 5 3 5 3
   \<and> character (range_start
         (shiftRange (mkRange 5 3 5 3) \<lparr>change_range = mkRange 5 3 5 3, change_text = ''ab''\<rparr>))
       \<noteq> 3 + 2
   \<and> positionIn sixLinesExample (range_start (mkRange 5 3 5 3))
   \<and> drop (nat (offsetAt sixLinesExample (range_start (mkRange 5 3 5 3)))) sixLinesExample
       = ''def''
   \<and> drop (nat (offsetAt
           (applyChange sixLinesExample \<lparr>change_range = mkRange 5 3 5 3, change_text = ''ab''\<rparr>)
           (range_start (shiftRange (mkRange 5 3 5 3)
              \<lparr>change_range = mkRange 5 3 5 3, change_text = ''ab''\<rparr>))))
        (applyChange sixLinesExample \<lparr>change_range = mkRange 5 3 5 3, change_text = ''ab''\<rparr>)
       = ''abdef''"
proof -
  let ?C = "\<lparr>change_range = mkRange 5 3 5 3, change_text = ''ab''\<rparr>"
  have s: "shiftRange (mkRange 5 3 5 3) ?C = mkRange 5 3 5 3"
    by (simp add: shift_defs mkRange_def)
  have p: "positionIn sixLinesExample (range_start (mkRange 5 3 5 3))"
    by code_simp
  have d: "drop (nat (offsetAt sixLinesExample (range_start (mkRange 5 3 5 3)))) sixLinesExample
      = ''def''"
    by code_simp
  have d': "drop (nat (offsetAt (applyChange sixLinesExample ?C) (range_start (mkRange 5 3 5 3))))
      (applyChange sixLinesExample ?C) = ''abdef''"
    by code_simp
  from s p d d' show ?thesis by (simp add: mkRange_sel)
qed

text \<open>
  The start of the shifted range is the same character boundary of the document as the
  start of the range was: with \<open>P\<close> the text before the change, \<open>T\<close> the new text and
  \<open>M\<close> the text between the end of the change and the start of the range, the start was
  the end position of \<open>P\<close>, the replaced text and \<open>M\<close>, and it becomes the end position
  of \<open>P @ T @ M\<close>.
\<close>

lemma shiftRange_anchored:
  assumes ord: "\<not> isAfter (range_start R) (range_end R)"
    and l: "line (range_end (change_range C)) = line (range_start R)"
    and c: "character (range_end (change_range C)) \<le> character (range_start R)"
    and na: "\<not> changeAfter R C"
    and ps: "positionIn content (range_start (change_range C))"
    and pe: "positionIn content (range_end (change_range C))"
    and pr: "positionIn content (range_start R)"
  shows "positionIn (applyChange content C) (range_start (shiftRange R C))"
    and "offsetAt (applyChange content C) (range_start (shiftRange R C)) =
           offsetAt content (range_start R) +
           (int (length (change_text C)) -
            (offsetAt content (range_end (change_range C)) -
             offsetAt content (range_start (change_range C))))"
    and "drop (nat (offsetAt (applyChange content C) (range_start (shiftRange R C))))
              (applyChange content C) =
           drop (nat (offsetAt content (range_start R))) content"
proof -
  let ?cs = "range_start (change_range C)"
  let ?ce = "range_end (change_range C)"
  let ?rs = "range_start R"
  let ?T = "change_text C"
  let ?ls = "split_newline content"
  define os where "os = lineStart ?ls (nat (line ?cs)) + nat (character ?cs)"
  define oe where "oe = lineStart ?ls (nat (line ?ce)) + nat (character ?ce)"
  define or where "or = lineStart ?ls (nat (line ?rs)) + nat (character ?rs)"
  have os: "offsetAt content ?cs = int os" and os_le: "os \<le> length content"
    using offsetAt_positionIn [OF ps] by (simp_all only: os_def)
  have oe: "offsetAt content ?ce = int oe" and oe_le: "oe \<le> length content"
    using offsetAt_positionIn [OF pe] by (simp_all only: oe_def)
  have or: "offsetAt content ?rs = int or" and or_le: "or \<le> length content"
    using offsetAt_positionIn [OF pr] by (simp_all only: or_def)
  from pe pr have c0: "0 \<le> character ?ce" "0 \<le> character ?rs"
    by (simp_all add: positionIn_def)
  define m where "m = nat (character ?rs) - nat (character ?ce)"
  from c c0 have m: "int m = character ?rs - character ?ce" by (simp add: m_def)
  from c c0 l have or_oe: "or = oe + m" by (simp add: or_def oe_def m_def)
  define P where "P = take os content"
  define M where "M = take m (drop oe content)"
  define S where "S = drop or content"
  from os_le have lP: "length P = os" by (simp add: P_def)
  from or_le or_oe have lM: "length M = m" by (simp add: M_def)
  have eP: "endPosition P = ?cs"
    using endPosition_take_offsetAt [OF ps] by (simp add: os P_def)
  have eE: "endPosition (take oe content) = ?ce"
    using endPosition_take_offsetAt [OF pe] by (simp add: oe)
  have eR: "endPosition (take or content) = ?rs"
    using endPosition_take_offsetAt [OF pr] by (simp add: or)
  have "take or content = take oe content @ M"
    by (simp add: or_oe M_def take_add)
  with eR have "endPosition (take oe content @ M) = ?rs" by simp
  then have "line (endPosition (take oe content)) + int (count_list M newline) = line ?rs"
    by (subst (asm) endPosition_append) (metis Position.select_convs(1))
  with eE l have cM: "count_list M newline = 0" by simp
  have tail: "drop oe content = M @ S"
    by (simp add: M_def S_def or_oe) (metis add.commute append_take_drop_id drop_drop)
  have new: "applyChange content C = (P @ ?T @ M) @ S"
    by (simp add: applyChange_def os oe P_def tail)
  have start: "range_start (shiftRange R C) = endPosition (P @ ?T @ M)"
  proof -
    from l c have "changeEndsOnStartLine R C" by (simp add: changeEndsOnStartLine_def)
    note f = shiftRange_same_line [OF na this ord]
    have e1: "endPosition (P @ ?T) =
        \<lparr>line = line ?cs + int (count_list ?T newline),
         character = (if count_list ?T newline = 0 then character ?cs + int (length ?T)
                      else int (length (last (split_newline ?T))))\<rparr>"
      by (simp add: endPosition_append [of P] eP)
    have "endPosition ((P @ ?T) @ M) =
        \<lparr>line = line (endPosition (P @ ?T)), character = character (endPosition (P @ ?T)) + int m\<rparr>"
      unfolding endPosition_append [of "P @ ?T" M] by (simp add: cM lM)
    then have e2: "endPosition (P @ ?T @ M) =
        \<lparr>line = line ?cs + int (count_list ?T newline),
         character = (if count_list ?T newline = 0 then character ?cs + int (length ?T)
                      else int (length (last (split_newline ?T)))) + int m\<rparr>"
      by (simp add: e1)
    have single: "length (last (split_newline ?T)) = length ?T" if "count_list ?T newline = 0"
      using that by (simp add: split_newline_single count_list_0_iff)
    have "line (range_start (shiftRange R C)) = line (endPosition (P @ ?T @ M))"
      using f l by (simp add: e2 lineDelta_def removedLineCount_def addedLineCount_count)
    moreover have "character (range_start (shiftRange R C)) = character (endPosition (P @ ?T @ M))"
      using f m single by (simp add: e2)
    ultimately show ?thesis by (simp add: Position.equality)
  qed
  from positionIn_endPosition [of "P @ ?T @ M" S]
  show "positionIn (applyChange content C) (range_start (shiftRange R C))"
    by (simp only: new start)
  have off: "offsetAt (applyChange content C) (range_start (shiftRange R C)) =
      int (length (P @ ?T @ M))"
    unfolding new start by (rule offsetAt_endPosition)
  then show "offsetAt (applyChange content C) (range_start (shiftRange R C)) =
           offsetAt content (range_start R) +
           (int (length (change_text C)) -
            (offsetAt content (range_end (change_range C)) -
             offsetAt content (range_start (change_range C))))"
    by (simp add: os oe or lP lM or_oe)
  show "drop (nat (offsetAt (applyChange content C) (range_start (shiftRange R C))))
              (applyChange content C) =
           drop (nat (offsetAt content (range_start R))) content"
    unfolding off by (simp add: new or S_def)
qed

text \<open>
  C3, amended: when the replaced range ends on the start line of a range \<open>R\<close> (with its
  start not after its end), at or before its start column, and the change does not start
  at or after the end of \<open>R\<close> (the first test of \<open>shiftRange\<close>), both lines move by
  \<open>lineDelta C\<close>; the start column becomes the old one plus the length of the inserted
  text minus the replaced columns when no newline is inserted, and the old one minus the
  change's end column plus the length of the last inserted line otherwise; the end column
  of a single-line range moves by the same amount as the start column, and the end column
  of a multi-line range is unchanged. The start stays at the same character boundary: in
  every document of which the ends of the replaced range and the start of \<open>R\<close> are
  positions, the new start is a position of the changed document, its offset is the old
  offset plus the length of the new text minus the length of the replaced text, and the
  text from it on is the text that followed the start of \<open>R\<close> before the change.
\<close>

theorem shiftRange_change_ends_on_start_line:
  assumes "\<not> isAfter (range_start R) (range_end R)"
    and "line (range_end (change_range C)) = line (range_start R)"
    and "character (range_end (change_range C)) \<le> character (range_start R)"
    and "\<not> changeAfter R C"
  shows "line (range_start (shiftRange R C)) = line (range_start R) + lineDelta C
       \<and> character (range_start (shiftRange R C)) =
           (if count_list (change_text C) newline = 0
            then character (range_start R) +
                 (int (length (last (split_newline (change_text C)))) -
                  (character (range_end (change_range C)) - character (range_start (change_range C))))
            else character (range_start R) - character (range_end (change_range C)) +
                 int (length (last (split_newline (change_text C)))))
       \<and> line (range_end (shiftRange R C)) = line (range_end R) + lineDelta C
       \<and> character (range_end (shiftRange R C)) =
           (if line (range_start R) = line (range_end R)
            then character (range_end R) +
                 (character (range_start (shiftRange R C)) - character (range_start R))
            else character (range_end R))
       \<and> (positionIn content (range_start (change_range C)) \<and>
          positionIn content (range_end (change_range C)) \<and>
          positionIn content (range_start R) \<longrightarrow>
            positionIn (applyChange content C) (range_start (shiftRange R C)) \<and>
            offsetAt (applyChange content C) (range_start (shiftRange R C)) =
              offsetAt content (range_start R) +
              (int (length (change_text C)) -
               (offsetAt content (range_end (change_range C)) -
                offsetAt content (range_start (change_range C)))) \<and>
            drop (nat (offsetAt (applyChange content C) (range_start (shiftRange R C))))
                 (applyChange content C) =
              drop (nat (offsetAt content (range_start R))) content)"
proof -
  from assms(2,3) have "changeEndsOnStartLine R C"
    by (simp add: changeEndsOnStartLine_def)
  from shiftRange_same_line [OF assms(4) this assms(1)]
    shiftRange_anchored [OF assms, of content]
  show ?thesis by simp
qed

text \<open>
  The word \<open>world\<close> of \<open>hello world\<close>, with \<open>hello\<close> replaced by two lines: the range
  moves down one line and four columns to the left, and the text from its start on is
  still \<open>world\<close> and what follows it.
\<close>

theorem shiftRange_change_ends_on_start_line_witness:
  "shiftRange (mkRange 0 6 0 11) helloChange = mkRange 1 5 1 10
   \<and> applyChange helloExample helloChange = ''hi\<newline>dear world\<newline>second''
   \<and> positionIn (applyChange helloExample helloChange)
        (range_start (shiftRange (mkRange 0 6 0 11) helloChange))
   \<and> offsetAt (applyChange helloExample helloChange)
        (range_start (shiftRange (mkRange 0 6 0 11) helloChange)) = 8
   \<and> drop (nat (offsetAt (applyChange helloExample helloChange)
                  (range_start (shiftRange (mkRange 0 6 0 11) helloChange))))
        (applyChange helloExample helloChange) = ''world\<newline>second''
   \<and> drop (nat (offsetAt helloExample (range_start (mkRange 0 6 0 11)))) helloExample
        = ''world\<newline>second''"
proof -
  let ?R = "mkRange 0 6 0 11"
  have h: "\<not> isAfter (range_start ?R) (range_end ?R)"
      "line (range_end (change_range helloChange)) = line (range_start ?R)"
      "character (range_end (change_range helloChange)) \<le> character (range_start ?R)"
      "\<not> changeAfter ?R helloChange"
    by (simp_all add: isAfter_def changeAfter_def helloChange_def mkRange_def)
  have p: "positionIn helloExample (range_start (change_range helloChange))"
      "positionIn helloExample (range_end (change_range helloChange))"
      "positionIn helloExample (range_start ?R)"
    by code_simp+
  have v: "lineDelta helloChange = 1" "count_list (change_text helloChange) newline = 1"
      "length (last (split_newline (change_text helloChange))) = 4"
      "length (change_text helloChange) = 7"
      "character (range_end (change_range helloChange)) = 5"
      "character (range_start (change_range helloChange)) = 0"
      "offsetAt helloExample (range_start ?R) = 6"
      "offsetAt helloExample (range_end (change_range helloChange)) = 5"
      "offsetAt helloExample (range_start (change_range helloChange)) = 0"
    by code_simp+
  have a: "applyChange helloExample helloChange = ''hi\<newline>dear world\<newline>second''"
    by code_simp
  have d: "drop (nat (offsetAt helloExample (range_start ?R))) helloExample
      = ''world\<newline>second''"
    by code_simp
  note t = shiftRange_change_ends_on_start_line [OF h, of helloExample]
  from t have r: "shiftRange ?R helloChange = mkRange 1 5 1 10"
    by (intro mkRange_eqI) (simp_all add: v mkRange_sel)
  note anchored = t [THEN conjunct2, THEN conjunct2, THEN conjunct2, THEN conjunct2, THEN mp,
      OF conjI [OF p(1) conjI [OF p(2) p(3)]]]
  note pi = anchored [THEN conjunct1]
  note dr = anchored [THEN conjunct2, THEN conjunct2]
  from anchored [THEN conjunct2, THEN conjunct1]
  have o: "offsetAt (applyChange helloExample helloChange)
        (range_start (shiftRange ?R helloChange)) = 8"
    by (simp add: v)
  show ?thesis
    apply (intro conjI)
    apply (rule r, rule a, rule pi, rule o, rule dr [unfolded d], rule d)
    done
qed

subsection \<open>A change after the range\<close>

text \<open>
  C4: when the replaced range starts strictly after the end of \<open>R\<close> (by line, then by
  column), \<open>shiftRange\<close> returns \<open>R\<close> unchanged.
\<close>

theorem shiftRange_change_after:
  assumes "isAfter (range_start (change_range C)) (range_end R)"
  shows "shiftRange R C = R"
  using assms by (auto simp: shift_defs isAfter_def)

theorem shiftRange_change_after_witness:
  "isAfter (range_start (change_range \<lparr>change_range = mkRange 10 0 10 5, change_text = ''new text''\<rparr>))
           (range_end (mkRange 5 0 5 10))
   \<and> shiftRange (mkRange 5 0 5 10) \<lparr>change_range = mkRange 10 0 10 5, change_text = ''new text''\<rparr>
       = mkRange 5 0 5 10"
  using shiftRange_change_after [of "\<lparr>change_range = mkRange 10 0 10 5, change_text = ''new text''\<rparr>"
      "mkRange 5 0 5 10"]
  by (simp add: isAfter_def mkRange_def)

subsection \<open>A change that overlaps the range\<close>

lemma shiftRange_overlap_eq:
  assumes "\<not> changeAfter R C" and "\<not> changeBeforeLine R C" and "\<not> changeEndsOnStartLine R C"
  shows "shiftRange R C =
           newRange
             \<lparr>line = max 0 (line (range_start R) + lineDelta C),
              character = character (range_start R)\<rparr>
             \<lparr>line = max 0 (line (range_end R) + lineDelta C),
              character = character (range_end R)\<rparr>"
  using assms by (simp add: shiftRange_def)

text \<open>
  In the overlap case the two clamped positions are out of order only when both lines are
  clamped to 0 and the start column is the greater one; the constructor then exchanges
  them.
\<close>

lemma shiftRange_overlap_fields:
  assumes "\<not> isAfter (range_start R) (range_end R)"
    and "\<not> changeAfter R C" and "\<not> changeBeforeLine R C" and "\<not> changeEndsOnStartLine R C"
  shows "line (range_start (shiftRange R C)) = max 0 (line (range_start R) + lineDelta C)"
    and "line (range_end (shiftRange R C)) = max 0 (line (range_end R) + lineDelta C)"
    and "character (range_start (shiftRange R C)) =
           (if line (range_end R) + lineDelta C \<le> 0 \<and>
               character (range_end R) < character (range_start R)
            then character (range_end R) else character (range_start R))"
    and "character (range_end (shiftRange R C)) =
           (if line (range_end R) + lineDelta C \<le> 0 \<and>
               character (range_end R) < character (range_start R)
            then character (range_start R) else character (range_end R))"
  using assms(1) unfolding shiftRange_overlap_eq [OF assms(2-4)]
  by (auto simp: newRange_def isBefore_def isAfter_def max_def)

lemma dom_adjustForChanges: "dom (pending (adjustForChanges e t)) = dom (pending t)"
  by (auto simp: adjustForChanges_def dom_def split: option.splits)

lemma pending_adjustForChanges:
  "pending t ident = Some entry \<Longrightarrow> entry_uri entry = document_uri e \<Longrightarrow>
   pending (adjustForChanges e t) ident =
     Some (entry\<lparr>entry_range := foldl shiftRange (entry_range entry) (contentChanges e)\<rparr>)"
  by (simp add: adjustForChanges_def)

text \<open>
  C5, as stated: in the overlap case both lines are translated by \<open>lineDelta C\<close> and both
  columns are left as they are. For the range (5, 0)-(6, 0) and the deletion of
  (0, 0)-(10, 0), \<open>lineDelta\<close> is \<open>-10\<close> and the result is (0, 0)-(0, 0): the start line
  is 0, not 5 - 10. For the range (5, 10)-(6, 0) and the same deletion the two clamped
  positions are (0, 10) and (0, 0), which the range constructor puts in order: the result
  is (0, 0)-(0, 10), its start column 0 and not 10.
\<close>

theorem shiftRange_overlap_counterexample:
  "\<not> changeAfter (mkRange 5 0 6 0) \<lparr>change_range = mkRange 0 0 10 0, change_text = ''''\<rparr>
   \<and> \<not> changeBeforeLine (mkRange 5 0 6 0) \<lparr>change_range = mkRange 0 0 10 0, change_text = ''''\<rparr>
   \<and> \<not> changeEndsOnStartLine (mkRange 5 0 6 0) \<lparr>change_range = mkRange 0 0 10 0, change_text = ''''\<rparr>
   \<and> lineDelta \<lparr>change_range = mkRange 0 0 10 0, change_text = ''''\<rparr> = - 10
   \<and> shiftRange (mkRange 5 0 6 0) \<lparr>change_range = mkRange 0 0 10 0, change_text = ''''\<rparr>
       = mkRange 0 0 0 0
   \<and> line (range_start
         (shiftRange (mkRange 5 0 6 0) \<lparr>change_range = mkRange 0 0 10 0, change_text = ''''\<rparr>))
       \<noteq> line (range_start (mkRange 5 0 6 0))
           + lineDelta \<lparr>change_range = mkRange 0 0 10 0, change_text = ''''\<rparr>
   \<and> \<not> changeAfter (mkRange 5 10 6 0) \<lparr>change_range = mkRange 0 0 10 0, change_text = ''''\<rparr>
   \<and> \<not> changeBeforeLine (mkRange 5 10 6 0) \<lparr>change_range = mkRange 0 0 10 0, change_text = ''''\<rparr>
   \<and> \<not> changeEndsOnStartLine (mkRange 5 10 6 0) \<lparr>change_range = mkRange 0 0 10 0, change_text = ''''\<rparr>
   \<and> shiftRange (mkRange 5 10 6 0) \<lparr>change_range = mkRange 0 0 10 0, change_text = ''''\<rparr>
       = mkRange 0 0 0 10
   \<and> character (range_start
         (shiftRange (mkRange 5 10 6 0) \<lparr>change_range = mkRange 0 0 10 0, change_text = ''''\<rparr>))
       \<noteq> character (range_start (mkRange 5 10 6 0))"
  by (simp add: shift_defs mkRange_def addedLineCount_def newRange_def isBefore_def)

text \<open>
  C5, amended: when none of the three earlier tests applies to a range \<open>R\<close> that is
  well-formed (as every range of the editor is), \<open>shiftRange\<close> moves the line of both
  endpoints by \<open>lineDelta C\<close>, clamped below at 0. It leaves both columns as they are,
  unless the clamp puts both endpoints on line 0 with the start column greater than the end
  column: the range constructor then orders the two positions, and the result has the two
  columns exchanged. Every line and column that is handed to the \<^verbatim>\<open>Position\<close> constructor
  is non-negative, so the constructor does not throw, and the result is a range with its
  start not after its end. The pending edit is not dropped: after an event with the change
  \<open>C\<close> on its document the id is tracked as before, with the same id and document and
  with the best-effort range, and no event changes the set of tracked ids.
\<close>

theorem shiftRange_overlap_clamped:
  assumes "wellFormed R"
    and "\<not> changeAfter R C" and "\<not> changeBeforeLine R C" and "\<not> changeEndsOnStartLine R C"
  shows "line (range_start (shiftRange R C)) = max 0 (line (range_start R) + lineDelta C)
       \<and> line (range_end (shiftRange R C)) = max 0 (line (range_end R) + lineDelta C)
       \<and> character (range_start (shiftRange R C)) =
           (if line (range_end R) + lineDelta C \<le> 0 \<and>
               character (range_end R) < character (range_start R)
            then character (range_end R) else character (range_start R))
       \<and> character (range_end (shiftRange R C)) =
           (if line (range_end R) + lineDelta C \<le> 0 \<and>
               character (range_end R) < character (range_start R)
            then character (range_start R) else character (range_end R))
       \<and> nonNegative (range_start (shiftRange R C))
       \<and> nonNegative (range_end (shiftRange R C))
       \<and> \<not> isAfter (range_start (shiftRange R C)) (range_end (shiftRange R C))
       \<and> (pending t ident = Some entry \<and> entry_range entry = R \<longrightarrow>
            pending (adjustForChanges \<lparr>document_uri = entry_uri entry, contentChanges = [C]\<rparr> t) ident
              = Some (entry\<lparr>entry_range := shiftRange R C\<rparr>))
       \<and> dom (pending (adjustForChanges e t)) = dom (pending t)"
proof -
  from assms(1) have ord: "\<not> isAfter (range_start R) (range_end R)"
    and nn: "0 \<le> character (range_start R)" "0 \<le> character (range_end R)"
    by (simp_all add: wellFormed_def nonNegative_def)
  note f = shiftRange_overlap_fields [OF ord assms(2-4)]
  have nonneg: "nonNegative (range_start (shiftRange R C))"
      "nonNegative (range_end (shiftRange R C))"
    using nn by (simp_all add: nonNegative_def f)
  from ord have after: "\<not> isAfter (range_start (shiftRange R C)) (range_end (shiftRange R C))"
    by (auto simp: isAfter_def f max_def)
  have kept: "pending (adjustForChanges \<lparr>document_uri = entry_uri entry, contentChanges = [C]\<rparr> t) ident
      = Some (entry\<lparr>entry_range := shiftRange R C\<rparr>)"
    if "pending t ident = Some entry" "entry_range entry = R"
    using pending_adjustForChanges
      [of t ident entry "\<lparr>document_uri = entry_uri entry, contentChanges = [C]\<rparr>"] that
    by simp
  from f nonneg after kept show ?thesis
    by (simp add: dom_adjustForChanges)
qed

text \<open>
  An insertion inside the first line of a range, the deletion that clamps both lines, and
  the deletion after which the constructor exchanges the two positions; the tracked entry
  of the fixtures stays tracked through a deletion that covers its range.
\<close>

theorem shiftRange_overlap_clamped_witness:
  "shiftRange (mkRange 5 2 6 4) \<lparr>change_range = mkRange 5 0 5 3, change_text = ''a\<newline>b''\<rparr>
     = mkRange 6 2 7 4
   \<and> shiftRange (mkRange 5 0 6 0) \<lparr>change_range = mkRange 0 0 10 0, change_text = ''''\<rparr>
     = mkRange 0 0 0 0
   \<and> shiftRange (mkRange 5 10 6 0) \<lparr>change_range = mkRange 0 0 10 0, change_text = ''''\<rparr>
     = mkRange 0 0 0 10
   \<and> pending (adjustForChanges
         \<lparr>document_uri = ''file:///test.ts'',
          contentChanges = [\<lparr>change_range = mkRange 0 0 20 0, change_text = ''''\<rparr>]\<rparr>
         exampleTracker) ''r1''
     = Some (exampleEntry\<lparr>entry_range := mkRange 0 0 0 5\<rparr>)"
proof -
  let ?ins = "\<lparr>change_range = mkRange 5 0 5 3, change_text = ''a\<newline>b''\<rparr>"
  let ?del = "\<lparr>change_range = mkRange 0 0 10 0, change_text = ''''\<rparr>"
  let ?all = "\<lparr>change_range = mkRange 0 0 20 0, change_text = ''''\<rparr>"
  have w: "wellFormed (mkRange 5 2 6 4)" "wellFormed (mkRange 5 0 6 0)"
      "wellFormed (mkRange 5 10 6 0)" "wellFormed (mkRange 10 0 12 5)"
    by (simp_all add: wellFormed_def nonNegative_def isAfter_def mkRange_def)
  have a: "\<not> changeAfter (mkRange 5 2 6 4) ?ins" "\<not> changeBeforeLine (mkRange 5 2 6 4) ?ins"
      "\<not> changeEndsOnStartLine (mkRange 5 2 6 4) ?ins"
    by (simp_all add: changeAfter_def changeBeforeLine_def changeEndsOnStartLine_def mkRange_def)
  have b: "\<not> changeAfter (mkRange 5 0 6 0) ?del" "\<not> changeBeforeLine (mkRange 5 0 6 0) ?del"
      "\<not> changeEndsOnStartLine (mkRange 5 0 6 0) ?del"
    by (simp_all add: changeAfter_def changeBeforeLine_def changeEndsOnStartLine_def mkRange_def)
  have c: "\<not> changeAfter (mkRange 5 10 6 0) ?del" "\<not> changeBeforeLine (mkRange 5 10 6 0) ?del"
      "\<not> changeEndsOnStartLine (mkRange 5 10 6 0) ?del"
    by (simp_all add: changeAfter_def changeBeforeLine_def changeEndsOnStartLine_def mkRange_def)
  have d: "\<not> changeAfter (mkRange 10 0 12 5) ?all" "\<not> changeBeforeLine (mkRange 10 0 12 5) ?all"
      "\<not> changeEndsOnStartLine (mkRange 10 0 12 5) ?all"
    by (simp_all add: changeAfter_def changeBeforeLine_def changeEndsOnStartLine_def mkRange_def)
  have p: "pending exampleTracker ''r1'' = Some exampleEntry"
      "entry_range exampleEntry = mkRange 10 0 12 5" "entry_uri exampleEntry = ''file:///test.ts''"
    by (simp_all add: exampleTracker_def exampleEntry_def)
  have ld: "lineDelta ?ins = 1" "lineDelta ?del = - 10" "lineDelta ?all = - 20"
    by (simp_all add: lineDelta_def addedLineCount_def removedLineCount_def mkRange_def)
  note t1 = shiftRange_overlap_clamped
      [OF w(1) a, of exampleTracker "''r1''" exampleEntry exampleEvent]
    and t2 = shiftRange_overlap_clamped
      [OF w(2) b, of exampleTracker "''r1''" exampleEntry exampleEvent]
    and t3 = shiftRange_overlap_clamped
      [OF w(3) c, of exampleTracker "''r1''" exampleEntry exampleEvent]
    and t4 = shiftRange_overlap_clamped
      [OF w(4) d, of exampleTracker "''r1''" exampleEntry exampleEvent]
  have r1: "shiftRange (mkRange 5 2 6 4) ?ins = mkRange 6 2 7 4"
    using t1 by (intro mkRange_eqI) (simp_all add: ld mkRange_sel)
  have r2: "shiftRange (mkRange 5 0 6 0) ?del = mkRange 0 0 0 0"
    using t2 by (intro mkRange_eqI) (simp_all add: ld mkRange_sel)
  have r3: "shiftRange (mkRange 5 10 6 0) ?del = mkRange 0 0 0 10"
    using t3 by (intro mkRange_eqI) (simp_all add: ld mkRange_sel)
  have r4: "shiftRange (mkRange 10 0 12 5) ?all = mkRange 0 0 0 5"
    using t4 by (intro mkRange_eqI) (simp_all add: ld mkRange_sel)
  from t4 p r4 have "pending (adjustForChanges
         \<lparr>document_uri = ''file:///test.ts'', contentChanges = [?all]\<rparr> exampleTracker) ''r1''
     = Some (exampleEntry\<lparr>entry_range := mkRange 0 0 0 5\<rparr>)"
    by simp
  with r1 r2 r3 show ?thesis by simp
qed

subsection \<open>Coordinates stay non-negative\<close>

text \<open>
  C10: for a well-formed range and a change whose replaced range is well-formed, both
  endpoints of the shifted range have a non-negative line and column; in the overlap case
  the lines are the translated lines clamped at 0.
\<close>

theorem shiftRange_nonNegative:
  assumes "wellFormed R" and "wellFormed (change_range C)"
  shows "nonNegative (range_start (shiftRange R C)) \<and> nonNegative (range_end (shiftRange R C))
       \<and> (\<not> changeAfter R C \<and> \<not> changeBeforeLine R C \<and> \<not> changeEndsOnStartLine R C \<longrightarrow>
            line (range_start (shiftRange R C)) = max 0 (line (range_start R) + lineDelta C) \<and>
            line (range_end (shiftRange R C)) = max 0 (line (range_end R) + lineDelta C))"
proof -
  note ld = lineDelta_lower [of C]
  consider (after) "changeAfter R C"
    | (before) "\<not> changeAfter R C" "changeBeforeLine R C"
    | (same) "\<not> changeAfter R C" "\<not> changeBeforeLine R C" "changeEndsOnStartLine R C"
    | (overlap) "\<not> changeAfter R C" "\<not> changeBeforeLine R C" "\<not> changeEndsOnStartLine R C"
    by blast
  then show ?thesis
  proof cases
    case after
    with assms show ?thesis by (simp add: shiftRange_def wellFormed_def)
  next
    case before
    have "nonNegative (translate (range_start R) (lineDelta C) 0)"
      and "nonNegative (translate (range_end R) (lineDelta C) 0)"
      using assms before(2) ld
      by (auto simp: wellFormed_def nonNegative_def isAfter_def translate_def changeBeforeLine_def)
    moreover from assms(1) have
      "newRange (translate (range_start R) (lineDelta C) 0) (translate (range_end R) (lineDelta C) 0)
         = \<lparr>range_start = translate (range_start R) (lineDelta C) 0,
            range_end = translate (range_end R) (lineDelta C) 0\<rparr>"
      by (intro newRange_ordered) (simp add: isAfter_translate wellFormed_def)
    ultimately show ?thesis using before by (simp add: shiftRange_def)
  next
    case same
    from same(3) have l: "line (range_end (change_range C)) = line (range_start R)"
      and c: "character (range_end (change_range C)) \<le> character (range_start R)"
      by (simp_all add: changeEndsOnStartLine_def Let_def)
    from assms(1) have ord: "\<not> isAfter (range_start R) (range_end R)"
      by (simp add: wellFormed_def)
    from shiftRange_same_line [OF same(1) same(3) ord] assms ld l c
    have "nonNegative (range_start (shiftRange R C))"
      and "nonNegative (range_end (shiftRange R C))"
      by (auto simp: wellFormed_def nonNegative_def isAfter_def split: if_splits)
    with same show ?thesis by simp
  next
    case overlap
    from assms(1) have ord: "\<not> isAfter (range_start R) (range_end R)"
      by (simp add: wellFormed_def)
    from shiftRange_overlap_fields [OF ord overlap] assms overlap show ?thesis
      by (simp add: wellFormed_def nonNegative_def)
  qed
qed

theorem shiftRange_nonNegative_witness:
  "wellFormed (mkRange 5 0 6 0) \<and> wellFormed (mkRange 0 0 10 0)
   \<and> lineDelta \<lparr>change_range = mkRange 0 0 10 0, change_text = ''''\<rparr> = - 10
   \<and> nonNegative (range_start
        (shiftRange (mkRange 5 0 6 0) \<lparr>change_range = mkRange 0 0 10 0, change_text = ''''\<rparr>))
   \<and> line (range_start
        (shiftRange (mkRange 5 0 6 0) \<lparr>change_range = mkRange 0 0 10 0, change_text = ''''\<rparr>)) = 0"
proof -
  have w: "wellFormed (mkRange 5 0 6 0)"
    and w': "wellFormed (change_range \<lparr>change_range = mkRange 0 0 10 0, change_text = ''''\<rparr>)"
    by (simp_all add: wellFormed_def nonNegative_def isAfter_def mkRange_def)
  have "\<not> changeAfter (mkRange 5 0 6 0) \<lparr>change_range = mkRange 0 0 10 0, change_text = ''''\<rparr>"
    and "\<not> changeBeforeLine (mkRange 5 0 6 0) \<lparr>change_range = mkRange 0 0 10 0, change_text = ''''\<rparr>"
    and "\<not> changeEndsOnStartLine (mkRange 5 0 6 0) \<lparr>change_range = mkRange 0 0 10 0, change_text = ''''\<rparr>"
    by (simp_all add: changeAfter_def changeBeforeLine_def changeEndsOnStartLine_def mkRange_def)
  with shiftRange_nonNegative [OF w w'] w w'
  show ?thesis
    by (simp add: mkRange_def lineDelta_def addedLineCount_def removedLineCount_def)
qed

subsection \<open>Applying a result\<close>

lemma find_eq: "find (\<lambda>d. d = x) xs = (if x \<in> set xs then Some x else None)"
  by (induction xs) auto

text \<open>An id that is not tracked: \<^verbatim>\<open>false\<close>, and nothing changes.\<close>

lemma applyResult_absent:
  "pending t ident = None \<Longrightarrow> applyResult ident newText host t = (Inr False, t, None)"
  by (simp add: applyResult_def)

text \<open>
  The document is closed or no visible editor shows it: \<^verbatim>\<open>false\<close>, nothing is written,
  and the id is removed.
\<close>

lemma applyResult_unavailable:
  "pending t ident = Some entry \<Longrightarrow> parse_toString host (entry_uri entry) = Inr uri \<Longrightarrow>
   targetEditor host entry = None \<Longrightarrow>
   applyResult ident newText host t = (Inr False, remove ident t, None)"
  by (simp add: applyResult_def targetEditor_def find_eq split: if_splits)

text \<open>
  The edit is made and its promise is fulfilled: the entry's stored range is the one
  replaced, the result is what the edit reports, and the id is removed.
\<close>

lemma applyResult_fulfilled:
  "pending t ident = Some entry \<Longrightarrow> targetEditor host entry = Some editor \<Longrightarrow>
   edit editor (entry_range entry) newText = Inr success \<Longrightarrow>
   applyResult ident newText host t =
     (Inr success, remove ident t, Some (entry_range entry, newText))"
  by (auto simp: applyResult_def targetEditor_def find_eq split: sum.splits if_splits)

text \<open>
  The promise of the edit is rejected: so is the promise of \<^verbatim>\<open>applyResult\<close>, and the
  tracker is left as it was, the id still tracked.
\<close>

lemma applyResult_rejected:
  "pending t ident = Some entry \<Longrightarrow> targetEditor host entry = Some editor \<Longrightarrow>
   edit editor (entry_range entry) newText = Inl err \<Longrightarrow>
   applyResult ident newText host t = (Inl err, t, Some (entry_range entry, newText))"
  by (auto simp: applyResult_def targetEditor_def find_eq split: sum.splits if_splits)

text \<open>The URI of the entry cannot be read: the method throws before anything else.\<close>

lemma applyResult_unreadable_uri:
  "pending t ident = Some entry \<Longrightarrow> parse_toString host (entry_uri entry) = Inl err \<Longrightarrow>
   applyResult ident newText host t = (Inl err, t, None)"
  by (simp add: applyResult_def)

text \<open>
  The stored range is the current one: after an event on the entry's document the range
  that is replaced is the tracked range shifted through the event's changes.
\<close>

lemma applyResult_current_range:
  assumes "pending t ident = Some entry" and "entry_uri entry = document_uri e"
    and "targetEditor host entry = Some editor"
  shows "snd (snd (applyResult ident newText host (adjustForChanges e t))) =
           Some (foldl shiftRange (entry_range entry) (contentChanges e), newText)"
proof -
  let ?entry' = "entry\<lparr>entry_range := foldl shiftRange (entry_range entry) (contentChanges e)\<rparr>"
  have p: "pending (adjustForChanges e t) ident = Some ?entry'"
    using assms(1,2) by (rule pending_adjustForChanges)
  have te: "targetEditor host ?entry' = Some editor"
    using assms(3) by (simp add: targetEditor_def)
  show ?thesis
  proof (cases "edit editor (entry_range ?entry') newText")
    case (Inl err)
    from applyResult_rejected [OF p te Inl] show ?thesis by simp
  next
    case (Inr success)
    from applyResult_fulfilled [OF p te Inr] show ?thesis by simp
  qed
qed

text \<open>
  C6 says that the id is removed from tracking on any outcome of \<open>applyResult\<close>, as the
  comment above the method does (``The insertion is removed from tracking regardless of
  success or failure''). The paths that end in \<^verbatim>\<open>return false\<close> remove it, and so does the
  path on which the edit is made; but \<^verbatim>\<open>this.pending.delete(id)\<close> stands after the awaited
  \<^verbatim>\<open>editor.edit\<close>, outside any \<^verbatim>\<open>try\<close>. With \<open>''r1''\<close> tracked on a document that is
  open and visible in an editor whose \<^verbatim>\<open>edit\<close> is rejected, \<open>applyResult\<close> is rejected
  with the same error and \<open>''r1''\<close> is still tracked afterwards.
\<close>

theorem applyResult_rejected_edit_keeps_id:
  "applyResult ''r1'' ''new'' rejectingHost exampleTracker =
     (Inl ''TextEditor#edit not possible on closed editors'', exampleTracker,
      Some (mkRange 10 0 12 5, ''new''))
   \<and> pending (fst (snd (applyResult ''r1'' ''new'' rejectingHost exampleTracker))) ''r1''
       = Some exampleEntry
   \<and> activeCount (fst (snd (applyResult ''r1'' ''new'' rejectingHost exampleTracker))) = 1
   \<and> applyResult ''r1'' ''new'' closedHost exampleTracker
       = (Inr False, remove ''r1'' exampleTracker, None)
   \<and> applyResult ''r1'' ''new'' exampleHost exampleTracker
       = (Inr True, remove ''r1'' exampleTracker, Some (mkRange 10 0 12 5, ''new''))
   \<and> pending (remove ''r1'' exampleTracker) ''r1'' = None"
  by (simp add: applyResult_def rejectingHost_def closedHost_def exampleHost_def
      exampleTracker_def exampleEntry_def activeCount_def remove_def)

section \<open>Properties of the block locator\<close>

subsection \<open>The scans\<close>

lemma findClose_None:
  "\<forall>p. prefix p s \<longrightarrow> count_list p rbrace < count_list p lbrace + d \<Longrightarrow> findClose s i d = None"
proof (induction s arbitrary: i d)
  case Nil
  show ?case by simp
next
  case (Cons c cs)
  have tl: "count_list (c # p) rbrace < count_list (c # p) lbrace + d" if "prefix p cs" for p
  proof -
    from that have "prefix (c # p) (c # cs)" by simp
    with Cons.prems show ?thesis by blast
  qed
  show ?case
  proof (cases "c = lbrace")
    case True
    have "findClose cs (Suc i) (d + 1) = None"
      by (rule Cons.IH) (use tl True in auto)
    with True show ?thesis by simp
  next
    case False
    show ?thesis
    proof (cases "c = rbrace")
      case True
      from tl [of "[]"] True have d: "1 < d" by simp
      have "findClose cs (Suc i) (d - 1) = None"
        by (rule Cons.IH) (use tl True d in fastforce)
      with True d show ?thesis by simp
    next
      case nr: False
      have "findClose cs (Suc i) d = None"
        by (rule Cons.IH) (use tl False nr in auto)
      with False nr show ?thesis by simp
    qed
  qed
qed

lemma findClose_match:
  "\<forall>p. prefix p s \<longrightarrow> count_list p rbrace < count_list p lbrace + d \<Longrightarrow>
   count_list s lbrace + d = count_list s rbrace + 1 \<Longrightarrow>
   findClose (s @ rbrace # rest) i d = Some (i + length s + 1)"
proof (induction s arbitrary: i d)
  case Nil
  then show ?case by simp
next
  case (Cons c cs)
  have tl: "count_list (c # p) rbrace < count_list (c # p) lbrace + d" if "prefix p cs" for p
  proof -
    from that have "prefix (c # p) (c # cs)" by simp
    with Cons.prems(1) show ?thesis by blast
  qed
  show ?case
  proof (cases "c = lbrace")
    case True
    have "findClose (cs @ rbrace # rest) (Suc i) (d + 1) = Some (Suc i + length cs + 1)"
      by (rule Cons.IH) (use tl True Cons.prems(2) in auto)
    with True show ?thesis by simp
  next
    case False
    show ?thesis
    proof (cases "c = rbrace")
      case True
      from tl [of "[]"] True have d: "1 < d" by simp
      have "findClose (cs @ rbrace # rest) (Suc i) (d - 1) = Some (Suc i + length cs + 1)"
        by (rule Cons.IH) (use tl True d Cons.prems(2) in \<open>fastforce, simp\<close>)
      with True d show ?thesis by simp
    next
      case nr: False
      have "findClose (cs @ rbrace # rest) (Suc i) d = Some (Suc i + length cs + 1)"
        by (rule Cons.IH) (use tl False nr Cons.prems(2) in auto)
      with False nr show ?thesis by simp
    qed
  qed
qed

lemma scanBackward_Some:
  "scanBackward text n d = Some i \<Longrightarrow> i < n \<and> charAt text i = Some lbrace"
proof (induction n arbitrary: d)
  case 0
  then show ?case by simp
next
  case (Suc n)
  then show ?case
    by (auto split: if_splits simp: less_Suc_eq)
qed

lemma scanBackward_no_brace:
  assumes "lbrace \<notin> set (take n text)"
  shows "scanBackward text n d = None"
proof (rule ccontr)
  assume "scanBackward text n d \<noteq> None"
  then obtain i where "scanBackward text n d = Some i" by auto
  from scanBackward_Some [OF this] have "i < n" "i < length text" "text ! i = lbrace"
    by (auto simp: charAt_def split: if_splits)
  then have "take n text ! i = lbrace" "i < length (take n text)" by simp_all
  then have "lbrace \<in> set (take n text)" by (metis nth_mem)
  with assms show False by simp
qed

lemma scanLine_no_brace:
  "lbrace \<notin> set (takeWhile (\<lambda>c. c \<noteq> newline) s) \<Longrightarrow> scanLine s i = None"
  by (induction s arbitrary: i) (auto split: if_splits)

lemma scanBackward_skip:
  "\<forall>sfx. suffix sfx seg \<longrightarrow> count_list sfx lbrace \<le> count_list sfx rbrace + d \<Longrightarrow>
   scanBackward (a @ seg @ rest) (length a + length seg) d =
   scanBackward (a @ seg @ rest) (length a) (d + count_list seg rbrace - count_list seg lbrace)"
proof (induction seg arbitrary: d rest rule: rev_induct)
  case Nil
  show ?case by simp
next
  case (snoc c seg)
  have sf: "count_list (sfx @ [c]) lbrace \<le> count_list (sfx @ [c]) rbrace + d" if "suffix sfx seg" for sfx
  proof -
    from that have "suffix (sfx @ [c]) (seg @ [c])" by simp
    with snoc.prems show ?thesis by blast
  qed
  have ch: "charAt (a @ (seg @ [c]) @ rest) (length a + length seg) = Some c"
    by (simp add: charAt_def nth_append)
  have tx: "a @ (seg @ [c]) @ rest = a @ seg @ (c # rest)" by simp
  have len: "length a + length (seg @ [c]) = Suc (length a + length seg)" by simp
  show ?case
  proof (cases "c = rbrace")
    case True
    have "scanBackward (a @ seg @ (c # rest)) (length a + length seg) (d + 1) =
      scanBackward (a @ seg @ (c # rest)) (length a) (d + 1 + count_list seg rbrace - count_list seg lbrace)"
      by (rule snoc.IH) (use sf True in auto)
    with True ch show ?thesis unfolding len tx [symmetric] by (simp add: tx)
  next
    case False
    show ?thesis
    proof (cases "c = lbrace")
      case True
      from sf [of "[]"] True have d: "0 < d" by simp
      have le: "count_list seg lbrace \<le> count_list seg rbrace + (d - 1)"
        using sf [of seg] True by simp
      have "scanBackward (a @ seg @ (c # rest)) (length a + length seg) (d - 1) =
        scanBackward (a @ seg @ (c # rest)) (length a) (d - 1 + count_list seg rbrace - count_list seg lbrace)"
        by (rule snoc.IH) (use sf True d in fastforce)
      with True ch d le show ?thesis unfolding len by (simp add: tx)
    next
      case nl: False
      have "scanBackward (a @ seg @ (c # rest)) (length a + length seg) d =
        scanBackward (a @ seg @ (c # rest)) (length a) (d + count_list seg rbrace - count_list seg lbrace)"
        by (rule snoc.IH) (use sf False nl in auto)
      with False nl ch show ?thesis unfolding len by (simp add: tx)
    qed
  qed
qed

lemma balanced_suffix:
  assumes "balanced s" and "suffix sfx s"
  shows "count_list sfx lbrace \<le> count_list sfx rbrace"
proof -
  from assms(2) obtain p where s: "s = p @ sfx" by (auto simp: suffix_def)
  then have "prefix p s" by simp
  with assms(1) have "count_list p rbrace \<le> count_list p lbrace"
    by (simp add: balanced_def)
  moreover from assms(1) s have
    "count_list p lbrace + count_list sfx lbrace = count_list p rbrace + count_list sfx rbrace"
    by (simp add: balanced_def)
  ultimately show ?thesis by simp
qed

lemma balanced_append:
  assumes "balanced s" and "balanced t"
  shows "balanced (s @ t)"
  using assms
  by (auto simp: balanced_def prefix_append)

lemma scanBackward_inner:
  assumes "balanced before"
  shows "scanBackward (pre @ lbrace # before @ rest) (length pre + 1 + length before) 0 = Some (length pre)"
proof -
  have "scanBackward ((pre @ [lbrace]) @ before @ rest) (length (pre @ [lbrace]) + length before) 0 =
      scanBackward ((pre @ [lbrace]) @ before @ rest) (length (pre @ [lbrace]))
        (0 + count_list before rbrace - count_list before lbrace)"
    by (rule scanBackward_skip) (use assms balanced_suffix in auto)
  moreover from assms have "count_list before rbrace - count_list before lbrace = 0"
    by (simp add: balanced_def)
  moreover have "charAt ((pre @ [lbrace]) @ before @ rest) (length pre) = Some lbrace"
    by (simp add: charAt_def nth_append)
  ultimately show ?thesis by simp
qed

lemma findClose_inner:
  assumes "balanced mid"
  shows "findClose (mid @ rbrace # post) i 1 = Some (i + length mid + 1)"
  by (rule findClose_match) (use assms in \<open>auto simp: balanced_def less_Suc_eq_le\<close>)

subsection \<open>The walk over the signature lines and the result\<close>

lemma walkUp_le: "walkUp ls n \<le> n"
  by (induction n) auto



lemma findClose_Some:
  "findClose s i d = Some j \<Longrightarrow> i < j \<and> j \<le> i + length s \<and> s ! (j - i - 1) = rbrace"
proof (induction s arbitrary: i d)
  case Nil
  then show ?case by simp
next
  case (Cons c cs)
  have later: "i < j \<and> j \<le> i + length (c # cs) \<and> (c # cs) ! (j - i - 1) = rbrace"
    if "findClose cs (Suc i) d' = Some j" for d'
  proof -
    from Cons.IH [OF that]
    have lt: "Suc i < j" and le: "j \<le> Suc i + length cs" and r: "cs ! (j - Suc i - 1) = rbrace"
      by simp_all
    from lt have "j - i - 1 = Suc (j - Suc i - 1)" by simp
    then have "(c # cs) ! (j - i - 1) = cs ! (j - Suc i - 1)" by simp
    with lt le r show ?thesis by simp
  qed
  show ?case
  proof (cases "c = lbrace")
    case True
    with Cons.prems have "findClose cs (Suc i) (d + 1) = Some j" by simp
    then show ?thesis by (rule later)
  next
    case False
    show ?thesis
    proof (cases "c = rbrace")
      case nr: False
      with False Cons.prems have "findClose cs (Suc i) d = Some j" by simp
      then show ?thesis by (rule later)
    next
      case True
      show ?thesis
      proof (cases "d - 1 = 0")
        case True
        with \<open>c = rbrace\<close> Cons.prems have "j = Suc i" by simp
        with \<open>c = rbrace\<close> show ?thesis by simp
      next
        case False
        with \<open>c = rbrace\<close> Cons.prems have "findClose cs (Suc i) (d - 1) = Some j" by simp
        then show ?thesis by (rule later)
      qed
    qed
  qed
qed

lemma scanLine_Some:
  "scanLine s i = Some j \<Longrightarrow> i \<le> j \<and> j - i < length s \<and> s ! (j - i) = lbrace"
proof (induction s arbitrary: i)
  case Nil
  then show ?case by simp
next
  case (Cons c cs)
  show ?case
  proof (cases "c = lbrace")
    case True
    with Cons.prems have "j = i" by simp
    with True show ?thesis by simp
  next
    case False
    have later: "scanLine cs (Suc i) = Some j"
    proof (cases "c = newline")
      case True
      with Cons.prems show ?thesis by simp
    next
      case nn: False
      with False Cons.prems show ?thesis by simp
    qed
    from Cons.IH [OF later]
    have le: "Suc i \<le> j" and lt: "j - Suc i < length cs" and r: "cs ! (j - Suc i) = lbrace"
      by simp_all
    from le have "j - i = Suc (j - Suc i)" by simp
    then have "(c # cs) ! (j - i) = cs ! (j - Suc i)" by simp
    with le lt r show ?thesis by auto
  qed
qed

lemma findBlockStart_Some:
  assumes "findBlockStart text off = Some b"
  shows "b < length text \<and> text ! b = lbrace"
proof (cases "scanBackward text (nat off) 0")
  case None
  with assms have "scanLine (drop (nat off) text) (nat off) = Some b"
    by (simp add: findBlockStart_def)
  from scanLine_Some [OF this]
  have "nat off \<le> b" "b - nat off < length (drop (nat off) text)"
    "drop (nat off) text ! (b - nat off) = lbrace"
    by simp_all
  then show ?thesis by auto
next
  case (Some i)
  with assms have "i = b" by (simp add: findBlockStart_def)
  with scanBackward_Some [OF Some] show ?thesis
    by (auto simp: charAt_def split: if_splits)
qed

lemma count_list_take_le: "count_list (take n xs) x \<le> count_list xs x"
proof -
  have "count_list xs x = count_list (take n xs) x + count_list (drop n xs) x"
    by (metis append_take_drop_id count_list_append)
  then show ?thesis by simp
qed

lemma lineOf_mono: "a \<le> b \<Longrightarrow> lineOf content a \<le> lineOf content b"
proof -
  assume "a \<le> b"
  then have "take a content = take a (take b content)" by (simp add: min_def)
  then show ?thesis
    unfolding lineOf_def by (metis count_list_take_le)
qed

lemma lineOf_less_lines: "lineOf content off < length (split_newline content)"
  by (simp add: lineOf_def length_split_newline count_list_take_le less_Suc_eq_le)

lemma lineOf_Suc:
  "off < length content \<Longrightarrow> content ! off \<noteq> newline \<Longrightarrow>
   lineOf content (Suc off) = lineOf content off"
  by (simp add: lineOf_def take_Suc_conv_app_nth)

lemma blockResult_lines:
  assumes "blockStart < blockEnd" and "blockEnd \<le> length content"
    and "content ! (blockEnd - 1) \<noteq> newline"
  shows "blockResult content blockStart blockEnd =
    (join_newline
       (take (Suc (lineOf content (blockEnd - 1)) - walkUp (split_newline content) (lineOf content blockStart))
          (drop (walkUp (split_newline content) (lineOf content blockStart)) (split_newline content))),
     mkRange (int (walkUp (split_newline content) (lineOf content blockStart))) 0
       (int (lineOf content (blockEnd - 1)))
       (int (length (split_newline content ! lineOf content (blockEnd - 1)))))"
proof -
  let ?ls = "split_newline content"
  define f where "f = walkUp ?ls (lineOf content blockStart)"
  define e where "e = lineOf content (blockEnd - 1)"
  from assms have s: "line (positionAt content (int blockStart)) = int (lineOf content blockStart)"
    by (intro positionAt_line) simp
  from assms have "lineOf content (Suc (blockEnd - 1)) = lineOf content (blockEnd - 1)"
    by (intro lineOf_Suc) simp_all
  with assms have le: "lineOf content blockEnd = e" by (simp add: e_def)
  from assms(2) have "line (positionAt content (int blockEnd)) = int (lineOf content blockEnd)"
    by (rule positionAt_line)
  with le have en: "line (positionAt content (int blockEnd)) = int e" by simp
  have el: "e < length ?ls" unfolding e_def by (rule lineOf_less_lines)
  have "f \<le> lineOf content blockStart" unfolding f_def by (rule walkUp_le)
  also from assms(1) have "\<dots> \<le> e" unfolding e_def by (intro lineOf_mono) simp
  finally have fe: "f \<le> e" .
  have en': "range_end (line_range (lineAt content (int e))) =
      \<lparr>line = int e, character = int (length (?ls ! e))\<rparr>"
    using el by (simp add: lineAt_def mkRange_def lineText_nth Let_def)
  from fe have "\<not> isAfter \<lparr>line = int f, character = 0\<rparr>
      \<lparr>line = int e, character = int (length (?ls ! e))\<rparr>"
    by (simp add: isAfter_def)
  then have rng: "newRange \<lparr>line = int f, character = 0\<rparr>
        (range_end (line_range (lineAt content (int e)))) =
      mkRange (int f) 0 (int e) (int (length (?ls ! e)))"
    unfolding en' by (simp add: newRange_ordered mkRange_def)
  have "blockResult content blockStart blockEnd =
      (getText content (mkRange (int f) 0 (int e) (int (length (?ls ! e)))),
       mkRange (int f) 0 (int e) (int (length (?ls ! e))))"
    using rng by (simp add: blockResult_def s en f_def Let_def)
  with getText_lines [OF fe el] show ?thesis
    by (simp add: f_def e_def)
qed

lemma getEnclosingBlock_found:
  assumes "findBlockStart content (offsetAt content position) = Some blockStart"
    and "findClose (drop (Suc blockStart) content) (Suc blockStart) 1 = Some blockEnd"
  shows "getEnclosingBlock content position =
    Some (join_newline
       (take (Suc (lineOf content (blockEnd - 1)) - walkUp (split_newline content) (lineOf content blockStart))
          (drop (walkUp (split_newline content) (lineOf content blockStart)) (split_newline content))),
     mkRange (int (walkUp (split_newline content) (lineOf content blockStart))) 0
       (int (lineOf content (blockEnd - 1)))
       (int (length (split_newline content ! lineOf content (blockEnd - 1)))))"
    and "blockStart < blockEnd - 1" and "blockEnd \<le> length content"
    and "content ! blockStart = lbrace" and "content ! (blockEnd - 1) = rbrace"
proof -
  from findBlockStart_Some [OF assms(1)]
  have bs: "blockStart < length content" and lb: "content ! blockStart = lbrace" by simp_all
  from findClose_Some [OF assms(2)]
  have lt: "Suc blockStart < blockEnd"
    and le: "blockEnd \<le> Suc blockStart + length (drop (Suc blockStart) content)"
    and r: "drop (Suc blockStart) content ! (blockEnd - Suc blockStart - 1) = rbrace"
    by simp_all
  from le bs show be: "blockEnd \<le> length content" by simp
  from lt show "blockStart < blockEnd - 1" by simp
  show "content ! blockStart = lbrace" by (rule lb)
  have "drop (Suc blockStart) content ! (blockEnd - Suc blockStart - 1) =
      content ! (Suc blockStart + (blockEnd - Suc blockStart - 1))"
    using bs by (intro nth_drop) simp
  moreover from lt have "Suc blockStart + (blockEnd - Suc blockStart - 1) = blockEnd - 1"
    by arith
  ultimately show rb: "content ! (blockEnd - 1) = rbrace"
    using r by (simp only:)
  then have "content ! (blockEnd - 1) \<noteq> newline" by simp
  with lt be have "blockResult content blockStart blockEnd =
    (join_newline
       (take (Suc (lineOf content (blockEnd - 1)) - walkUp (split_newline content) (lineOf content blockStart))
          (drop (walkUp (split_newline content) (lineOf content blockStart)) (split_newline content))),
     mkRange (int (walkUp (split_newline content) (lineOf content blockStart))) 0
       (int (lineOf content (blockEnd - 1)))
       (int (length (split_newline content ! lineOf content (blockEnd - 1)))))"
    by (intro blockResult_lines) simp_all
  with assms show "getEnclosingBlock content position =
    Some (join_newline
       (take (Suc (lineOf content (blockEnd - 1)) - walkUp (split_newline content) (lineOf content blockStart))
          (drop (walkUp (split_newline content) (lineOf content blockStart)) (split_newline content))),
     mkRange (int (walkUp (split_newline content) (lineOf content blockStart))) 0
       (int (lineOf content (blockEnd - 1)))
       (int (length (split_newline content ! lineOf content (blockEnd - 1)))))"
    by (simp add: getEnclosingBlock_def)
qed


subsection \<open>The innermost pair\<close>

text \<open>
  C7, as stated: with nested pairs and the cursor in the inner one, the result is the
  extent of the inner pair and not an outer pair. On the one-line text \<open>{ { } }\<close> with
  the cursor at column 3 the result is the whole line, which is the outer pair, and not
  the inner pair at columns 2 to 5.
\<close>

theorem getEnclosingBlock_nested_one_line_counterexample:
  "getEnclosingBlock ''{ { } }'' \<lparr>line = 0, character = 3\<rparr> = Some (''{ { } }'', mkRange 0 0 0 7)
   \<and> getEnclosingBlock ''{ { } }'' \<lparr>line = 0, character = 3\<rparr> \<noteq> Some (''{ }'', mkRange 0 2 0 5)"
proof -
  have "getEnclosingBlock ''{ { } }'' \<lparr>line = 0, character = 3\<rparr> = Some (''{ { } }'', mkRange 0 0 0 7)"
    by code_simp
  then show ?thesis by simp
qed

text \<open>
  C7, amended: when the cursor is directly inside a brace pair (the text between the
  opening brace and the cursor and the text between the cursor and the closing brace are
  both balanced), whatever surrounds the pair, the backward scan stops at this pair's
  opening brace, the forward scan at its closing brace, and the result is the whole lines
  from the walked-up line of the opening brace to the end of the line of the closing
  brace.
\<close>

theorem getEnclosingBlock_innermost:
  assumes "content = pre @ lbrace # before @ after @ rbrace # post"
    and "balanced before" and "balanced after"
    and "offsetAt content position = int (length pre + 1 + length before)"
  shows "findBlockStart content (offsetAt content position) = Some (length pre)
     \<and> findClose (drop (Suc (length pre)) content) (Suc (length pre)) 1
          = Some (length pre + length before + length after + 2)
     \<and> getEnclosingBlock content position =
         Some (join_newline
            (take (Suc (lineOf content (length pre + length before + length after + 1))
                     - walkUp (split_newline content) (lineOf content (length pre)))
               (drop (walkUp (split_newline content) (lineOf content (length pre)))
                  (split_newline content))),
          mkRange (int (walkUp (split_newline content) (lineOf content (length pre)))) 0
            (int (lineOf content (length pre + length before + length after + 1)))
            (int (length (split_newline content !
                     lineOf content (length pre + length before + length after + 1)))))"
proof -
  have "scanBackward (pre @ lbrace # before @ (after @ rbrace # post))
      (length pre + 1 + length before) 0 = Some (length pre)"
    using assms(2) by (rule scanBackward_inner)
  moreover from assms(4) have "nat (offsetAt content position) = length pre + 1 + length before"
    by simp
  ultimately have bs: "findBlockStart content (offsetAt content position) = Some (length pre)"
    unfolding findBlockStart_def assms(1) [symmetric] by (simp only: assms(1) option.case)
  from assms(2,3) have "balanced (before @ after)" by (rule balanced_append)
  then have "findClose ((before @ after) @ rbrace # post) (Suc (length pre)) 1 =
      Some (Suc (length pre) + length (before @ after) + 1)"
    by (rule findClose_inner)
  moreover have "drop (Suc (length pre)) content = (before @ after) @ rbrace # post"
    using assms(1) by simp
  ultimately have be: "findClose (drop (Suc (length pre)) content) (Suc (length pre)) 1
      = Some (length pre + length before + length after + 2)"
    by simp
  from getEnclosingBlock_found(1) [OF bs be] bs be show ?thesis by simp
qed

text \<open>The nested functions of the tests, with the cursor inside the inner body.\<close>

theorem getEnclosingBlock_innermost_witness:
  "getEnclosingBlock nestedExample \<lparr>line = 2, character = 4\<rparr> =
     Some (''  function inner() {\<newline>    return 1;\<newline>  }'', mkRange 1 0 3 3)
   \<and> findBlockStart nestedExample (offsetAt nestedExample \<lparr>line = 2, character = 4\<rparr>) = Some 38"
proof -
  let ?pre = "''function outer() {\<newline>  function inner() ''"
  let ?before = "''\<newline>    ''"
  let ?after = "''return 1;\<newline>  ''"
  let ?post = "''\<newline>}''"
  let ?pos = "\<lparr>line = 2, character = 4\<rparr>"
  have c: "nestedExample = ?pre @ lbrace # ?before @ ?after @ rbrace # ?post"
    by (simp add: nestedExample_def)
  have b1: "balanced ?before" by code_simp
  have b2: "balanced ?after" by code_simp
  have off: "offsetAt nestedExample ?pos = int (length ?pre + 1 + length ?before)"
    by code_simp
  note th = getEnclosingBlock_innermost [OF c b1 b2 off]
  note s = th [THEN conjunct1]
  note r = th [THEN conjunct2, THEN conjunct2]
  have v1: "walkUp (split_newline nestedExample) (lineOf nestedExample (length ?pre)) = 1"
    by code_simp
  have v2: "lineOf nestedExample (length ?pre + length ?before + length ?after + 1) = 3"
    by code_simp
  have v3: "split_newline nestedExample =
      [''function outer() {'', ''  function inner() {'', ''    return 1;'', ''  }'', ''}'']"
    by code_simp
  have v4: "length ?pre = 38" by simp
  from r [unfolded v1 v2, unfolded v3] s [unfolded v4] show ?thesis
    by (simp add: numeral_eq_Suc)
qed

subsection \<open>No block\<close>

text \<open>
  C8: \<open>getEnclosingBlock\<close> gives \<open>None\<close> when there is no opening brace before the
  cursor nor after it on the rest of its line (so also when the text has no opening brace
  at all), and when the opening brace that was found is never closed: no prefix of the
  text after it has more closing than opening braces, so the depth never reaches 0.
\<close>

theorem getEnclosingBlock_none:
  "(lbrace \<notin> set (take (nat (offsetAt content position)) content) \<and>
    lbrace \<notin> set (takeWhile (\<lambda>c. c \<noteq> newline) (drop (nat (offsetAt content position)) content))
      \<longrightarrow> getEnclosingBlock content position = None)
   \<and> (lbrace \<notin> set content \<longrightarrow> getEnclosingBlock content position = None)
   \<and> (findBlockStart content (offsetAt content position) = Some blockStart \<and>
        (\<forall>p \<in> set (prefixes (drop (Suc blockStart) content)).
            count_list p rbrace \<le> count_list p lbrace)
      \<longrightarrow> getEnclosingBlock content position = None)"
proof (intro conjI impI)
  assume a: "lbrace \<notin> set (take (nat (offsetAt content position)) content) \<and>
    lbrace \<notin> set (takeWhile (\<lambda>c. c \<noteq> newline) (drop (nat (offsetAt content position)) content))"
  then have "findBlockStart content (offsetAt content position) = None"
    by (simp add: findBlockStart_def scanBackward_no_brace scanLine_no_brace)
  then show "getEnclosingBlock content position = None"
    by (simp add: getEnclosingBlock_def)
next
  assume a: "lbrace \<notin> set content"
  have "findBlockStart content (offsetAt content position) = None"
  proof (rule ccontr)
    assume "findBlockStart content (offsetAt content position) \<noteq> None"
    then obtain b where "findBlockStart content (offsetAt content position) = Some b" by auto
    from findBlockStart_Some [OF this] have "b < length content" "content ! b = lbrace"
      by simp_all
    then have "lbrace \<in> set content" using nth_mem [of b content] by simp
    with a show False by simp
  qed
  then show "getEnclosingBlock content position = None"
    by (simp add: getEnclosingBlock_def)
next
  assume a: "findBlockStart content (offsetAt content position) = Some blockStart \<and>
        (\<forall>p \<in> set (prefixes (drop (Suc blockStart) content)).
            count_list p rbrace \<le> count_list p lbrace)"
  then have "\<forall>p. prefix p (drop (Suc blockStart) content) \<longrightarrow>
      count_list p rbrace < count_list p lbrace + 1"
    by (simp add: less_Suc_eq_le)
  then have "findClose (drop (Suc blockStart) content) (Suc blockStart) 1 = None"
    by (rule findClose_None)
  with a show "getEnclosingBlock content position = None"
    by (simp add: getEnclosingBlock_def)
qed

text \<open>
  No opening brace in reach, no brace at all, and an opening brace that is never closed.
\<close>

theorem getEnclosingBlock_none_witness:
  "getEnclosingBlock otherLineExample \<lparr>line = 0, character = 2\<rparr> = None
   \<and> getEnclosingBlock noBraceExample \<lparr>line = 0, character = 5\<rparr> = None
   \<and> findBlockStart unmatchedExample (offsetAt unmatchedExample \<lparr>line = 1, character = 5\<rparr>) = Some 15
   \<and> getEnclosingBlock unmatchedExample \<lparr>line = 1, character = 5\<rparr> = None"
proof -
  let ?p1 = "\<lparr>line = 0, character = 2\<rparr>"
  let ?p2 = "\<lparr>line = 0, character = 5\<rparr>"
  let ?p3 = "\<lparr>line = 1, character = 5\<rparr>"
  have h1: "lbrace \<notin> set (take (nat (offsetAt otherLineExample ?p1)) otherLineExample) \<and>
      lbrace \<notin> set (takeWhile (\<lambda>c. c \<noteq> newline)
        (drop (nat (offsetAt otherLineExample ?p1)) otherLineExample))"
    by code_simp
  have h2: "lbrace \<notin> set noBraceExample"
    by code_simp
  have h3: "findBlockStart unmatchedExample (offsetAt unmatchedExample ?p3) = Some 15"
    by code_simp
  have h4: "\<forall>p \<in> set (prefixes (drop (Suc 15) unmatchedExample)).
      count_list p rbrace \<le> count_list p lbrace"
    by code_simp
  from getEnclosingBlock_none [of otherLineExample ?p1 0] h1
  have "getEnclosingBlock otherLineExample ?p1 = None" by blast
  moreover from getEnclosingBlock_none [of noBraceExample ?p2 0] h2
  have "getEnclosingBlock noBraceExample ?p2 = None" by blast
  moreover from getEnclosingBlock_none [of unmatchedExample ?p3 15] h3 h4
  have "getEnclosingBlock unmatchedExample ?p3 = None" by blast
  ultimately show ?thesis using h3 by simp
qed

subsection \<open>The extent of the result\<close>


lemma trimsTo_unique:
  assumes "trimsTo s body"
  shows "body = trimEnd s"
proof -
  from assms obtain ws where s: "s = body @ ws" and ws: "\<forall>c \<in> set ws. isWhiteSpace c"
    by (auto simp: trimsTo_def prefix_def)
  from assms have b: "body = [] \<or> \<not> isWhiteSpace (last body)" by (simp add: trimsTo_def)
  from ws have "dropWhile isWhiteSpace (rev ws @ rev body) = dropWhile isWhiteSpace (rev body)"
    by (simp add: dropWhile_append)
  also from b have "\<dots> = rev body"
    by (cases body rule: rev_cases) simp_all
  finally show ?thesis by (simp add: trimEnd_def s)
qed




end
